theory Spec2Isabelle
  imports Main "HOL-Library.Sublist" "HOL-Library.Multiset"
begin

section \<open>Python strings\<close>

text \<open>
  A Python \<open>str\<close> is modelled as a \<open>string\<close> (a list of 8-bit characters), so the
  model covers ASCII text; \<open>lower()\<close> and \<open>strip()\<close> act on ASCII letters and ASCII
  whitespace only. \<open>needle in hay\<close> is \<open>sublist needle hay\<close> and
  \<open>s.startswith(p)\<close> is \<open>prefix p s\<close>, both from the library.
\<close>

definition is_space :: "char \<Rightarrow> bool" where
  "is_space c = (c \<in> set [CHR '' '', CHR 0x09, CHR 0x0A, CHR 0x0B, CHR 0x0C, CHR 0x0D,
                            CHR 0x1C, CHR 0x1D, CHR 0x1E, CHR 0x1F])"

definition py_lstrip :: "(char \<Rightarrow> bool) \<Rightarrow> string \<Rightarrow> string" where
  "py_lstrip p s = dropWhile p s"

definition py_rstrip :: "(char \<Rightarrow> bool) \<Rightarrow> string \<Rightarrow> string" where
  "py_rstrip p s = rev (dropWhile p (rev s))"

definition py_strip :: "(char \<Rightarrow> bool) \<Rightarrow> string \<Rightarrow> string" where
  "py_strip p s = py_rstrip p (py_lstrip p s)"

text \<open>\<open>s.strip()\<close>, \<open>s.strip(chars)\<close> and \<open>s.rstrip(chars)\<close>.\<close>

definition strip_ws :: "string \<Rightarrow> string" where
  "strip_ws s = py_strip is_space s"

definition strip_chars :: "string \<Rightarrow> string \<Rightarrow> string" where
  "strip_chars cs s = py_strip (\<lambda>c. c \<in> set cs) s"

definition rstrip_chars :: "string \<Rightarrow> string \<Rightarrow> string" where
  "rstrip_chars cs s = py_rstrip (\<lambda>c. c \<in> set cs) s"

definition lstrip_chars :: "string \<Rightarrow> string \<Rightarrow> string" where
  "lstrip_chars cs s = py_lstrip (\<lambda>c. c \<in> set cs) s"

text \<open>
  \<open>s.replace(old, new)\<close> for a non-empty \<open>old\<close>: every non-overlapping occurrence,
  scanning from the left. (The source only calls it with \<open>old = 'form'\<close>; for an empty
  \<open>old\<close> this model leaves \<open>s\<close> unchanged, which is not what Python does.)
\<close>

function py_replace :: "string \<Rightarrow> string \<Rightarrow> string \<Rightarrow> string" where
  "py_replace old new [] = []"
| "py_replace old new (c # cs) =
     (if old \<noteq> [] \<and> prefix old (c # cs)
      then new @ py_replace old new (drop (length old) (c # cs))
      else c # py_replace old new cs)"
  by pat_completeness auto
termination
  by (relation "measure (\<lambda>(old, new, s). length s)") (auto simp: neq_Nil_conv)

definition lower_char :: "char \<Rightarrow> char" where
  "lower_char c =
     (case map_of (zip ''ABCDEFGHIJKLMNOPQRSTUVWXYZ'' ''abcdefghijklmnopqrstuvwxyz'') c of
        Some d \<Rightarrow> d
      | None \<Rightarrow> c)"

definition py_lower :: "string \<Rightarrow> string" where
  "py_lower s = map lower_char s"

text \<open>\<open>sep.join(parts)\<close>.\<close>

fun py_join :: "string \<Rightarrow> string list \<Rightarrow> string" where
  "py_join sep [] = []"
| "py_join sep [x] = x"
| "py_join sep (x # y # ys) = x @ sep @ py_join sep (y # ys)"

text \<open>\<open>re.sub(r'/+', '/', s)\<close>: every run of slashes becomes one slash.\<close>

fun collapse_slashes :: "string \<Rightarrow> string" where
  "collapse_slashes [] = []"
| "collapse_slashes [c] = [c]"
| "collapse_slashes (c # d # cs) =
     (if c = CHR ''/'' \<and> d = CHR ''/'' then collapse_slashes (d # cs)
      else c # collapse_slashes (d # cs))"

section \<open>The parsed document\<close>

text \<open>
  The HTML parser is an external library. A parsed tag is a tree node with its
  lower-cased tag name, its attribute dictionary (an association list read with
  \<open>map_of\<close>) and its child tags; text nodes play no role in the crawler. The root node
  stands for the \<open>BeautifulSoup\<close> object itself.
\<close>

datatype element = Element (tag_name: string) (attrs: "(string \<times> string) list")
  (children: "element list")

text \<open>\<open>tag.get(key, default)\<close> and \<open>tag.has_attr(key)\<close>.\<close>

definition get_attr :: "element \<Rightarrow> string \<Rightarrow> string \<Rightarrow> string" where
  "get_attr el k dflt = (case map_of (attrs el) k of Some v \<Rightarrow> v | None \<Rightarrow> dflt)"

definition has_attr :: "element \<Rightarrow> string \<Rightarrow> bool" where
  "has_attr el k = (map_of (attrs el) k \<noteq> None)"

text \<open>All tags below a node, in document order (the node itself excluded).\<close>

fun descendants :: "element \<Rightarrow> element list" where
  "descendants (Element n a cs) = concat (map (\<lambda>c. c # descendants c) cs)"

text \<open>\<open>tag.find_all([names])\<close>.\<close>

definition find_all :: "element \<Rightarrow> string list \<Rightarrow> element list" where
  "find_all el names = filter (\<lambda>e. tag_name e \<in> set names) (descendants el)"

text \<open>\<open>soup.find('meta', attrs={'name': n})\<close>: the first such tag, or \<open>None\<close>.\<close>

definition find_meta :: "element \<Rightarrow> string \<Rightarrow> element option" where
  "find_meta soup n =
     (case filter (\<lambda>e. tag_name e = ''meta'' \<and> map_of (attrs e) ''name'' = Some n)
             (descendants soup) of
        [] \<Rightarrow> None
      | e # _ \<Rightarrow> Some e)"

section \<open>Meta tag analysis\<close>

record meta_info =
  mi_url :: string
  has_meta_keywords :: bool
  has_meta_description :: bool
  meta_keywords :: string
  meta_description :: string
  seo_issues :: "string list"

text \<open>
  \<open>_extract_meta_info(soup, url)\<close>. A \<open>Tag\<close> is always truthy, so \<open>if meta_desc:\<close>
  tests for \<open>None\<close> only.
\<close>

definition extract_meta_info :: "element \<Rightarrow> string \<Rightarrow> meta_info" where
  "extract_meta_info soup url =
     (let mi0 = \<lparr>mi_url = url, has_meta_keywords = False, has_meta_description = False,
                 meta_keywords = [], meta_description = [], seo_issues = []\<rparr>;
          mi1 = (case find_meta soup ''description'' of
                   Some meta_desc \<Rightarrow>
                     (let content = strip_ws (get_attr meta_desc ''content'' [])
                      in if content \<noteq> []
                         then mi0\<lparr>has_meta_description := True, meta_description := content\<rparr>
                         else mi0\<lparr>seo_issues := seo_issues mi0 @ [''Empty meta description'']\<rparr>)
                 | None \<Rightarrow>
                     mi0\<lparr>seo_issues := seo_issues mi0 @ [''Missing meta description'']\<rparr>)
      in (case find_meta soup ''keywords'' of
            Some meta_kw \<Rightarrow>
              (let content = strip_ws (get_attr meta_kw ''content'' [])
               in if content \<noteq> []
                  then mi1\<lparr>has_meta_keywords := True, meta_keywords := content\<rparr>
                  else mi1\<lparr>seo_issues := seo_issues mi1 @ [''Empty meta keywords'']\<rparr>)
          | None \<Rightarrow>
              mi1\<lparr>seo_issues := seo_issues mi1 @ [''Missing meta keywords'']\<rparr>))"

section \<open>The form rule catalog\<close>

record form_config =
  cfg_name :: string
  selectors :: "string list"

text \<open>
  \<open>self.form_configs\<close>: a dictionary literal, read in insertion order, never changed
  after construction.
\<close>

definition form_configs :: "(string \<times> form_config) list" where
  "form_configs =
    [(''/'', \<lparr>cfg_name = ''Get Free Recommendations'',
             selectors = [''form#home-recommendations'']\<rparr>),
     (''vendor-profile-page-software'', \<lparr>cfg_name = ''Software Profile Forms'',
             selectors = [''form.get-pricing-form'', ''form.compare-pricing-form'',
                          ''form.watch-demo-form'', ''form.write-review-form'',
                          ''form.fit-check-form'']\<rparr>),
     (''vendor-profile-page-services'', \<lparr>cfg_name = ''Services Profile Forms'',
             selectors = [''form.get-quote-form'', ''form.download-portfolio-form'']\<rparr>),
     (''lead-generation-page'', \<lparr>cfg_name = ''Get Started Form'',
             selectors = [''form.vendor-signup-form'']\<rparr>),
     (''subcategory-page'', \<lparr>cfg_name = ''Subcategory Forms'',
             selectors = [''form.pricing-guide-form'', ''form.download-list-form'']\<rparr>),
     (''vendor-comparison-page'', \<lparr>cfg_name = ''Comparison Form'',
             selectors = [''form.comparison-form'']\<rparr>),
     (''whitepaper-article-page'', \<lparr>cfg_name = ''Whitepaper Form'',
             selectors = [''form.whitepaper-form'']\<rparr>),
     (''register-now'', \<lparr>cfg_name = ''Webinar Registration'',
             selectors = [''form.webinar-form'']\<rparr>),
     (''watch-now-webinar'', \<lparr>cfg_name = ''Watch Webinar'',
             selectors = [''form.watch-webinar-form'']\<rparr>),
     (''category-page'', \<lparr>cfg_name = ''Category Page Forms'',
             selectors = [''form.advice-form'', ''form.help-form'']\<rparr>),
     (''get-free-advice'', \<lparr>cfg_name = ''Advice Forms'',
             selectors = [''form.deciding-help-form'', ''form.software-search-form'']\<rparr>),
     (''contact-us'', \<lparr>cfg_name = ''Contact Form'',
             selectors = [''form.contact-form'']\<rparr>)]"

section \<open>External collaborators\<close>

text \<open>
  The URL library, the HTTP transport, the HTML parser with its selector engine, the
  wall clock and the event loop are not code of the crawler. They are the fields of an
  environment \<open>E\<close>:
  \<^item> \<open>urlparse\<close> gives the scheme, network location and path of a URL;
  \<^item> \<open>urljoin\<close> resolves a link against the page URL, or raises;
  \<^item> \<open>session_get\<close> answers a request or raises (connection error, timeout); the
    answer carries the status and the decoded body, whose reading may raise as well;
  \<^item> \<open>beautiful_soup\<close> parses a body or raises; queries on a parsed document are total;
  \<^item> \<open>select_one\<close> is \<open>soup.select_one(selector)\<close>;
  \<^item> \<open>elapsed_minutes k\<close> is the clock at the \<open>k\<close>-th test of the loop condition, in
    whole minutes since the start (the source compares a float with the integer
    timeout, which only depends on its floor);
  \<^item> \<open>completion k\<close> fixes the order in which the concurrent requests of the \<open>k\<close>-th
    batch complete (see \<open>pick_order\<close>).
\<close>

datatype py_exception = ClientError | TimeoutError | DecodeError | ParserError | ValueError

record parse_result =
  scheme :: string
  netloc :: string
  path :: string

record response =
  status :: int
  body :: "py_exception + string"

record env =
  urlparse :: "string \<Rightarrow> parse_result"
  urljoin :: "string \<Rightarrow> string \<Rightarrow> py_exception + string"
  session_get :: "string \<Rightarrow> py_exception + response"
  beautiful_soup :: "string \<Rightarrow> py_exception + element"
  select_one :: "element \<Rightarrow> string \<Rightarrow> element option"
  elapsed_minutes :: "nat \<Rightarrow> int"
  completion :: "nat \<Rightarrow> nat list"

section \<open>Form extraction\<close>

record field_data =
  fd_selector :: string
  fd_type :: string
  fd_required :: bool

record form_data =
  fm_url :: string
  form_id :: string
  form_selector :: string
  form_type :: string
  fm_fields :: "field_data list"
  fm_meta_info :: meta_info

text \<open>
  The loop over \<open>form.find_all(['input', 'textarea', 'select'])\<close>, the same text in
  \<open>_extract_form_info\<close> and in \<open>_process_url\<close>.
\<close>

fun collect_fields :: "element list \<Rightarrow> field_data list \<Rightarrow> field_data list" where
  "collect_fields [] flds = flds"
| "collect_fields (field # rest) flds =
     (let field_type = (if tag_name field = ''input'' then get_attr field ''type'' ''text''
                        else tag_name field);
          field_name = get_attr field ''name'' [];
          required = (has_attr field ''required'' \<or> has_attr field ''data-required'')
      in if field_type \<notin> set [''hidden'', ''submit'']
         then collect_fields rest
                (flds @ [\<lparr>fd_selector = tag_name field @ ''[name='' @ [CHR 0x27] @ field_name
                                           @ [CHR 0x27] @ '']'',
                             fd_type = field_type, fd_required = required\<rparr>])
         else collect_fields rest flds)"

text \<open>
  What the loop above computes for one tag, named for use in statements: the field type,
  and the dictionary appended for a tag that is kept.
\<close>

definition field_type_of :: "element \<Rightarrow> string" where
  "field_type_of field =
     (if tag_name field = ''input'' then get_attr field ''type'' ''text'' else tag_name field)"

definition field_data_of :: "element \<Rightarrow> field_data" where
  "field_data_of field =
     \<lparr>fd_selector = tag_name field @ ''[name='' @ [CHR 0x27] @ get_attr field ''name'' []
                     @ [CHR 0x27] @ '']'',
      fd_type = field_type_of field,
      fd_required = (has_attr field ''required'' \<or> has_attr field ''data-required'')\<rparr>"

text \<open>
  \<open>form.get('id', '') or selector.replace('form', '').strip('.#')\<close>: the second operand
  is taken when the first is the empty string.
\<close>

definition make_form_id :: "element \<Rightarrow> string \<Rightarrow> string" where
  "make_form_id form selector =
     (if get_attr form ''id'' [] \<noteq> [] then get_attr form ''id'' []
      else strip_chars ''.#'' (py_replace ''form'' [] selector))"

text \<open>
  The dictionary \<open>form_data\<close> that both loops below build for a matched element with
  at least one kept field, named for use in statements.
\<close>

definition form_data_of ::
  "string \<Rightarrow> meta_info \<Rightarrow> form_config \<Rightarrow> string \<Rightarrow> element \<Rightarrow> form_data" where
  "form_data_of url meta config selector form =
     \<lparr>fm_url = url, form_id = make_form_id form selector, form_selector = selector,
      form_type = cfg_name config,
      fm_fields = collect_fields (find_all form [''input'', ''textarea'', ''select'']) [],
      fm_meta_info = meta\<rparr>"

text \<open>
  \<open>if form_data not in self.forms_found: self.forms_found.append(form_data)\<close>, for the
  forms of a list in turn.
\<close>

fun append_new :: "'a list \<Rightarrow> 'a list \<Rightarrow> 'a list" where
  "append_new found [] = found"
| "append_new found (x # xs) = append_new (if x \<notin> set found then found @ [x] else found) xs"

subsection \<open>\<open>_extract_form_info\<close>\<close>

fun efi_selectors ::
  "env \<Rightarrow> element \<Rightarrow> string \<Rightarrow> meta_info \<Rightarrow> form_config \<Rightarrow> string list \<Rightarrow>
   form_data list \<Rightarrow> form_data list" where
  "efi_selectors E soup url meta config [] forms = forms"
| "efi_selectors E soup url meta config (selector # rest) forms =
     (case select_one E soup selector of
        None \<Rightarrow> efi_selectors E soup url meta config rest forms
      | Some form \<Rightarrow>
          (let flds = collect_fields (find_all form [''input'', ''textarea'', ''select'']) []
           in if flds \<noteq> []
              then efi_selectors E soup url meta config rest
                     (forms @ [\<lparr>fm_url = url, form_id = make_form_id form selector,
                                 form_selector = selector, form_type = cfg_name config,
                                 fm_fields = flds, fm_meta_info = meta\<rparr>])
              else efi_selectors E soup url meta config rest forms))"

fun efi_configs ::
  "env \<Rightarrow> element \<Rightarrow> string \<Rightarrow> meta_info \<Rightarrow> (string \<times> form_config) list \<Rightarrow>
   form_data list \<Rightarrow> form_data list" where
  "efi_configs E soup url meta [] forms = forms"
| "efi_configs E soup url meta ((fragment, config) # rest) forms =
     (if sublist fragment url \<or> fragment = ''/''
      then efi_configs E soup url meta rest
             (efi_selectors E soup url meta config (selectors config) forms)
      else efi_configs E soup url meta rest forms)"

text \<open>
  The \<open>try\<close> of \<open>_extract_form_info\<close> covers the parse; every exception ends the
  function with the forms collected so far, none when the parse fails.
\<close>

definition extract_form_info :: "env \<Rightarrow> string \<Rightarrow> string \<Rightarrow> form_data list" where
  "extract_form_info E url html =
     (case beautiful_soup E html of
        Inl e \<Rightarrow> []
      | Inr soup \<Rightarrow> efi_configs E soup url (extract_meta_info soup url) form_configs [])"

subsection \<open>The inline extraction of \<open>_process_url\<close>\<close>

text \<open>
  The same loops, written a second time in \<open>_process_url\<close>; here each form is also
  appended to \<open>self.forms_found\<close> unless an equal dictionary is already there. The pair
  is (\<open>forms\<close>, \<open>self.forms_found\<close>).
\<close>

fun pu_selectors ::
  "env \<Rightarrow> element \<Rightarrow> string \<Rightarrow> meta_info \<Rightarrow> form_config \<Rightarrow> string list \<Rightarrow>
   form_data list \<times> form_data list \<Rightarrow> form_data list \<times> form_data list" where
  "pu_selectors E soup url meta config [] (forms, found) = (forms, found)"
| "pu_selectors E soup url meta config (selector # rest) (forms, found) =
     (case select_one E soup selector of
        None \<Rightarrow> pu_selectors E soup url meta config rest (forms, found)
      | Some form \<Rightarrow>
          (let flds = collect_fields (find_all form [''input'', ''textarea'', ''select'']) []
           in if flds \<noteq> []
              then (let form_data = \<lparr>fm_url = url, form_id = make_form_id form selector,
                                      form_selector = selector, form_type = cfg_name config,
                                      fm_fields = flds, fm_meta_info = meta\<rparr>
                    in pu_selectors E soup url meta config rest
                         (forms @ [form_data],
                          if form_data \<notin> set found then found @ [form_data] else found))
              else pu_selectors E soup url meta config rest (forms, found)))"

fun pu_configs ::
  "env \<Rightarrow> element \<Rightarrow> string \<Rightarrow> meta_info \<Rightarrow> (string \<times> form_config) list \<Rightarrow>
   form_data list \<times> form_data list \<Rightarrow> form_data list \<times> form_data list" where
  "pu_configs E soup url meta [] acc = acc"
| "pu_configs E soup url meta ((fragment, config) # rest) acc =
     (if sublist fragment url \<or> fragment = ''/''
      then pu_configs E soup url meta rest
             (pu_selectors E soup url meta config (selectors config) acc)
      else pu_configs E soup url meta rest acc)"

section \<open>The crawler state\<close>

record crawler =
  base_url :: string
  visited :: "string set"
  queue :: "string list"
  forms_found :: "form_data list"
  batch_size :: int
  max_pages :: int
  timeout_minutes :: int
  all_urls :: "string set"

text \<open>\<open>_normalize_url(url)\<close>.\<close>

definition normalize_url :: "env \<Rightarrow> string \<Rightarrow> string" where
  "normalize_url E url =
     (let parsed = urlparse E url;
          clean_path = collapse_slashes (rstrip_chars ''/'' (path parsed))
      in scheme parsed @ ''://'' @ py_lower (netloc parsed) @ clean_path)"

text \<open>\<open>WebCrawler.__init__\<close>.\<close>

definition init :: "env \<Rightarrow> string \<Rightarrow> int \<Rightarrow> int \<Rightarrow> int \<Rightarrow> crawler" where
  "init E url bs mp tm =
     \<lparr>base_url = normalize_url E url, visited = {}, queue = [], forms_found = [],
      batch_size = bs, max_pages = mp, timeout_minutes = tm, all_urls = {}\<rparr>"

text \<open>\<open>_should_crawl_url(url)\<close>; both outcomes of its last test are \<open>True\<close>.\<close>

definition should_crawl_url :: "env \<Rightarrow> string \<Rightarrow> bool" where
  "should_crawl_url E url =
     (let p = py_lower (path (urlparse E url))
      in if list_ex (\<lambda>ext. sublist ext p)
              [''.jpg'', ''.jpeg'', ''.png'', ''.gif'', ''.pdf'', ''.zip'', ''.css'', ''.js'',
               ''.ico'', ''.xml'', ''.txt'', ''.doc'', ''.docx'', ''.xls'', ''.xlsx'']
         then False
         else if list_ex (\<lambda>pattern. sublist pattern p)
              [''/feed/'', ''/rss/'', ''/atom/'', ''/api/'', ''/print/'', ''/trackback/'',
               ''offset='', ''limit='', ''start='']
         then False
         else if list_ex (\<lambda>form_path. sublist form_path p) (map fst form_configs)
         then True
         else True)"

section \<open>Processing one URL\<close>

text \<open>
  The loop over \<open>soup.find_all('a', href=True)\<close>, given the \<open>href\<close> values in document
  order; \<open>keys\<close> is \<open>self.form_configs.keys()\<close>. The pair is (\<open>new_urls\<close>,
  \<open>self.all_urls\<close>). The inner \<open>try\<close> skips a link whose resolution raises.
\<close>

fun link_loop ::
  "env \<Rightarrow> string list \<Rightarrow> string \<Rightarrow> string \<Rightarrow> string list \<Rightarrow> string list \<times> string set \<Rightarrow>
   string list \<times> string set" where
  "link_loop E keys base url [] (new_urls, all) = (new_urls, all)"
| "link_loop E keys base url (href # rest) (new_urls, all) =
     (if href = [] \<or> prefix ''#'' href \<or> prefix ''mailto:'' href
      then link_loop E keys base url rest (new_urls, all)
      else (case urljoin E url href of
              Inl e \<Rightarrow> link_loop E keys base url rest (new_urls, all)
            | Inr full_url \<Rightarrow>
                (let normalized_url = normalize_url E full_url
                 in if prefix base normalized_url \<and> should_crawl_url E full_url \<and>
                       normalized_url \<notin> all
                    then link_loop E keys base url rest
                           (if list_ex (\<lambda>form_path. sublist form_path (py_lower normalized_url))
                                 keys
                            then normalized_url # new_urls
                            else new_urls @ [normalized_url],
                            insert normalized_url all)
                    else link_loop E keys base url rest (new_urls, all))))"

definition hrefs :: "element \<Rightarrow> string list" where
  "hrefs soup =
     map (\<lambda>link. get_attr link ''href'' [])
       (filter (\<lambda>link. has_attr link ''href'') (find_all soup [''a'']))"

text \<open>
  \<open>_process_url\<close> from the parse of the body to its \<open>return\<close>: the new state, the local
  list \<open>forms\<close> (which the function builds and then drops) and the returned \<open>new_urls\<close>.
\<close>

definition process_html ::
  "env \<Rightarrow> crawler \<Rightarrow> string \<Rightarrow> string \<Rightarrow> crawler \<times> form_data list \<times> string list" where
  "process_html E s url html =
     (case beautiful_soup E html of
        Inl e \<Rightarrow> (s, [], [])
      | Inr soup \<Rightarrow>
          (let meta = extract_meta_info soup url;
               (forms, found) = pu_configs E soup url meta form_configs ([], forms_found s);
               (new_urls, all) = link_loop E (map fst form_configs) (base_url s) url (hrefs soup)
                                   ([], all_urls s)
           in (s\<lparr>forms_found := found, all_urls := all\<rparr>, forms, new_urls)))"

text \<open>
  \<open>_process_url(session, url)\<close>: the new state and the returned list. Everything in the
  body is inside one \<open>try\<close> whose handler returns \<open>[]\<close>. The requests of a batch run
  concurrently, but a coroutine is only suspended at its two \<open>await\<close>s (the request
  and the reading of the body); from there to its \<open>return\<close> it runs alone. So a call
  reads and writes the state at the moment its body has arrived.
\<close>

definition process_url :: "env \<Rightarrow> crawler \<Rightarrow> string \<Rightarrow> crawler \<times> string list" where
  "process_url E s url =
     (case session_get E url of
        Inl e \<Rightarrow> (s, [])
      | Inr response \<Rightarrow>
          if status response \<noteq> 200 then (s, [])
          else (case body response of
                  Inl e \<Rightarrow> (s, [])
                | Inr html \<Rightarrow>
                    (let (s', forms, new_urls) = process_html E s url html
                     in (s', new_urls))))"

text \<open>
  Two observations of \<open>_process_url\<close>, named for use in statements: the parsed page it
  works on (\<open>None\<close> when the request, the status test, the reading of the body or the
  parse ends the call), and the forms that page yields.
\<close>

definition page_soup :: "env \<Rightarrow> string \<Rightarrow> element option" where
  "page_soup E url =
     (case session_get E url of
        Inl e \<Rightarrow> None
      | Inr response \<Rightarrow>
          if status response \<noteq> 200 then None
          else (case body response of
                  Inl e \<Rightarrow> None
                | Inr html \<Rightarrow>
                    (case beautiful_soup E html of Inl e \<Rightarrow> None | Inr soup \<Rightarrow> Some soup)))"

definition page_forms :: "env \<Rightarrow> string \<Rightarrow> form_data list" where
  "page_forms E url =
     (case page_soup E url of
        None \<Rightarrow> []
      | Some soup \<Rightarrow> efi_configs E soup url (extract_meta_info soup url) form_configs [])"

text \<open>
  The fallback form id in the words of the specification: the selector with the literal
  word \<open>form\<close> removed and any leading \<open>.\<close> or \<open>#\<close> stripped.
\<close>

definition spec_fallback_id :: "string \<Rightarrow> string" where
  "spec_fallback_id selector = lstrip_chars ''.#'' (py_replace ''form'' [] selector)"

section \<open>The crawl loop\<close>

text \<open>\<open>xs[:n]\<close> and \<open>xs[n:]\<close> for a Python integer \<open>n\<close>, negative ones included.\<close>

definition slice_to :: "int \<Rightarrow> 'a list \<Rightarrow> 'a list" where
  "slice_to n xs = (if 0 \<le> n then take (nat n) xs else take (length xs - nat (- n)) xs)"

definition slice_from :: "int \<Rightarrow> 'a list \<Rightarrow> 'a list" where
  "slice_from n xs = (if 0 \<le> n then drop (nat n) xs else drop (length xs - nat (- n)) xs)"

text \<open>
  The order in which the tasks of a batch complete: \<open>pick_order ks tasks\<close> takes, for
  each number \<open>k\<close> of \<open>ks\<close>, the task at position \<open>k mod n\<close> among the \<open>n\<close> tasks still
  running; when \<open>ks\<close> is used up the others complete in dispatch order. Every result is
  a permutation of the tasks, and every permutation is the result of some \<open>ks\<close>
  (lemmas \<open>pick_order_mset\<close> and \<open>pick_order_any\<close> below).
\<close>

fun pick_order :: "nat list \<Rightarrow> 'a list \<Rightarrow> 'a list" where
  "pick_order [] tasks = tasks"
| "pick_order (k # ks) tasks =
     (if tasks = [] then []
      else (let i = k mod length tasks
            in tasks ! i # pick_order ks (take i tasks @ drop (Suc i) tasks)))"

text \<open>
  \<open>asyncio.gather\<close>: the tasks run in their completion order, each on the state the
  previous one left; the result of task \<open>i\<close> is stored at position \<open>i\<close>.
\<close>

fun process_tasks ::
  "env \<Rightarrow> (nat \<times> string) list \<Rightarrow> crawler \<times> string list list \<Rightarrow>
   crawler \<times> string list list" where
  "process_tasks E [] (s, results) = (s, results)"
| "process_tasks E ((i, url) # rest) (s, results) =
     (let (s', new_urls) = process_url E s url
      in process_tasks E rest (s', results[i := new_urls]))"

definition gather :: "env \<Rightarrow> nat list \<Rightarrow> string list \<Rightarrow> crawler \<Rightarrow> crawler \<times> string list list" where
  "gather E ks current_batch s =
     process_tasks E (pick_order ks (zip [0..<length current_batch] current_batch))
       (s, replicate (length current_batch) [])"

text \<open>The loop \<open>for new_urls in results\<close>.\<close>

fun merge_results :: "string list list \<Rightarrow> crawler \<Rightarrow> crawler" where
  "merge_results [] s = s"
| "merge_results (new_urls # rest) s =
     merge_results rest
       (s\<lparr>queue := queue s @ filter (\<lambda>url. url \<notin> visited s) new_urls,
          visited := visited s \<union> set (filter (\<lambda>url. url \<notin> visited s) new_urls)\<rparr>)"

definition current_batch :: "crawler \<Rightarrow> string list" where
  "current_batch s = slice_to (batch_size s) (queue s)"

text \<open>One pass through the body of the \<open>while\<close> loop, the \<open>k\<close>-th of the crawl.\<close>

definition crawl_step :: "env \<Rightarrow> nat \<Rightarrow> crawler \<Rightarrow> crawler" where
  "crawl_step E k s =
     (let (s', results) = gather E (completion E k) (current_batch s)
                            (s\<lparr>queue := slice_from (batch_size s) (queue s)\<rparr>)
      in merge_results results s')"

datatype stop_reason = Completed | PageLimitReached | TimedOut

text \<open>
  \<open>_should_stop_crawling()\<close> at the \<open>k\<close>-th test of the loop condition: \<open>None\<close> for
  \<open>False\<close>, and for \<open>True\<close> the branch that returned it.
\<close>

definition should_stop_crawling :: "env \<Rightarrow> nat \<Rightarrow> crawler \<Rightarrow> stop_reason option" where
  "should_stop_crawling E k s =
     (if max_pages s \<le> int (card (visited s)) then Some PageLimitReached
      else if timeout_minutes s \<le> elapsed_minutes E k then Some TimedOut
      else None)"

text \<open>
  \<open>while self.queue and not self._should_stop_crawling()\<close>. The loop need not end (a
  batch size of 0 never empties the queue), so it runs on fuel: \<open>None\<close> when the fuel
  is used up. The result is why the loop ended, how many passes it made, and the state.
\<close>

fun crawl_loop :: "env \<Rightarrow> nat \<Rightarrow> nat \<Rightarrow> crawler \<Rightarrow> (stop_reason \<times> nat \<times> crawler) option" where
  "crawl_loop E 0 k s = None"
| "crawl_loop E (Suc fuel) k s =
     (if queue s = [] then Some (Completed, k, s)
      else (case should_stop_crawling E k s of
              Some reason \<Rightarrow> Some (reason, k, s)
            | None \<Rightarrow> crawl_loop E fuel (Suc k) (crawl_step E k s)))"

text \<open>The three assignments before the loop.\<close>

definition crawl_start :: "crawler \<Rightarrow> crawler" where
  "crawl_start s =
     s\<lparr>queue := [base_url s], visited := insert (base_url s) (visited s),
       all_urls := insert (base_url s) (all_urls s)\<rparr>"

section \<open>The report\<close>

definition py_str_bool :: "bool \<Rightarrow> string" where
  "py_str_bool b = (if b then ''True'' else ''False'')"

definition csv_header :: "string list" where
  "csv_header =
     [''Form ID'', ''URL'', ''Form Selector'', ''Success Message Selector'', ''Fields'',
      ''Form Type'', ''Has Meta Description'', ''Meta Description'',
      ''Has Meta Keywords'', ''Meta Keywords'', ''SEO Issues'']"

definition form_row :: "form_data \<Rightarrow> string list" where
  "form_row form =
     (let fields_str =
            py_join '';''
              (map (\<lambda>field. fd_selector field @ ''|'' @ fd_type field @ ''|'' @
                             (if fd_required field then ''required'' else ''optional''))
                 (fm_fields form));
          meta = fm_meta_info form
      in [form_id form, fm_url form, form_selector form, ''.success-message'', fields_str,
          form_type form,
          py_str_bool (has_meta_description meta), take 200 (meta_description meta),
          py_str_bool (has_meta_keywords meta), take 200 (meta_keywords meta),
          py_join ''; '' (seo_issues meta)])"

text \<open>
  \<open>save_forms_to_csv()\<close>: the rows handed to the CSV writer, or \<open>None\<close> when nothing is
  written.
\<close>

definition save_forms_to_csv :: "crawler \<Rightarrow> string list list option" where
  "save_forms_to_csv s =
     (if forms_found s = [] then None
      else Some (csv_header # map form_row (forms_found s)))"

text \<open>\<open>crawl()\<close> on a fresh crawler: the outcome of the loop and the rows written.\<close>

definition crawl ::
  "env \<Rightarrow> nat \<Rightarrow> crawler \<Rightarrow> (stop_reason \<times> nat \<times> crawler \<times> string list list option) option" where
  "crawl E fuel s =
     (case crawl_loop E fuel 0 (crawl_start s) of
        None \<Rightarrow> None
      | Some (reason, k, s') \<Rightarrow> Some (reason, k, s', save_forms_to_csv s'))"

section \<open>The history of a crawl\<close>

text \<open>
  The state before the \<open>n\<close>-th pass of the loop, and the URLs requested in the passes
  before it (each pass requests its batch). These are observations of the model, not
  state of the program.
\<close>

primrec run :: "env \<Rightarrow> crawler \<Rightarrow> nat \<Rightarrow> crawler" where
  "run E s 0 = crawl_start s"
| "run E s (Suc n) = crawl_step E n (run E s n)"

primrec fetched :: "env \<Rightarrow> crawler \<Rightarrow> nat \<Rightarrow> string list" where
  "fetched E s 0 = []"
| "fetched E s (Suc n) = fetched E s n @ current_batch (run E s n)"

text \<open>
  Two notions for statements about the link loop: its priority test, for the keys it is
  given, and the links of a page that pass the admission test (same site, not filtered,
  not in \<open>all_urls\<close>), as normalized URLs in the order of their discovery.
\<close>

definition is_priority :: "string list \<Rightarrow> string \<Rightarrow> bool" where
  "is_priority keys normalized_url =
     list_ex (\<lambda>form_path. sublist form_path (py_lower normalized_url)) keys"

text \<open>
  The two numbers of the log line \<open>Processed {len(self.visited)} pages,
  {len(self.queue)} remaining\<close> at the end of a pass.
\<close>

definition processed_log :: "crawler \<Rightarrow> nat \<times> nat" where
  "processed_log s = (card (visited s), length (queue s))"


text \<open>
  The invariant of the loop, for the list \<open>F\<close> of URLs requested so far: no URL occurs
  twice among those requested and those waiting, these are the members of \<open>visited\<close>,
  and all of them are in \<open>all_urls\<close>.
\<close>

definition frontier_inv :: "string list \<Rightarrow> crawler \<Rightarrow> bool" where
  "frontier_inv F s =
     (distinct (F @ queue s) \<and> set (F @ queue s) = visited s \<and> visited s \<subseteq> all_urls s)"

section \<open>An example site\<close>

text \<open>
  A small environment on which the definitions are evaluated. Its URL functions agree
  with the library on URLs of the shape \<open>scheme://netloc/path\<close> and on links that are
  absolute or start with a slash; its selector engine knows the two selector shapes of
  the catalog, for forms with a single class. The site has a home page with two links,
  a page behind each link, a contact page, a feedback page behind it, and URLs that fail
  in different ways.
\<close>

fun split_scheme :: "string \<Rightarrow> string \<Rightarrow> string \<times> string" where
  "split_scheme acc [] = ([], rev acc)"
| "split_scheme acc (c # cs) =
     (if prefix ''://'' (c # cs) then (rev acc, drop 3 (c # cs)) else split_scheme (c # acc) cs)"

definition simple_urlparse :: "string \<Rightarrow> parse_result" where
  "simple_urlparse url =
     (let (sch, rest) = split_scheme [] url
      in \<lparr>scheme = sch, netloc = takeWhile (\<lambda>c. c \<noteq> CHR ''/'') rest,
          path = dropWhile (\<lambda>c. c \<noteq> CHR ''/'') rest\<rparr>)"

definition simple_urljoin :: "string \<Rightarrow> string \<Rightarrow> py_exception + string" where
  "simple_urljoin base href =
     (if sublist ''://'' href then Inr href
      else if prefix ''/'' href
      then Inr (scheme (simple_urlparse base) @ ''://'' @ netloc (simple_urlparse base) @ href)
      else Inl ValueError)"

definition simple_select_one :: "element \<Rightarrow> string \<Rightarrow> element option" where
  "simple_select_one soup selector =
     (case filter (\<lambda>e. tag_name e = ''form'' \<and>
                       (selector = ''form#'' @ get_attr e ''id'' [] \<or>
                        selector = ''form.'' @ get_attr e ''class'' []))
             (descendants soup) of
        [] \<Rightarrow> None
      | e # _ \<Rightarrow> Some e)"

definition email_form :: element where
  "email_form = Element ''form'' [(''id'', ''home-recommendations'')]
       [Element ''input'' [(''type'', ''text''), (''name'', ''email''), (''required'', [])] [],
        Element ''input'' [(''type'', ''submit'')] []]"

definition home_page :: element where
  "home_page = Element ''[document]'' []
     [Element ''meta'' [(''name'', ''description''), (''content'', '' '')] [],
      email_form,
      Element ''a'' [(''href'', ''http://site.test:8080'')] [],
      Element ''a'' [(''href'', ''/p1'')] []]"

definition p1_page :: element where
  "p1_page = Element ''[document]'' []
     [email_form,
      Element ''a'' [(''href'', ''/contact-us/'')] [],
      Element ''a'' [(''href'', ''http://SITE.test//contact-us'')] [],
      Element ''a'' [(''href'', ''#top'')] [],
      Element ''a'' [(''href'', ''/logo.png'')] []]"

definition alt_page :: element where
  "alt_page = Element ''[document]'' [] [email_form]"

definition contact_page :: element where
  "contact_page = Element ''[document]'' []
     [Element ''form'' [(''class'', ''contact-form'')]
        [Element ''input'' [(''type'', ''hidden''), (''name'', ''csrf'')] [],
         Element ''input'' [(''type'', ''submit'')] []],
      Element ''a'' [(''href'', ''/contact-us/feedback'')] []]"

definition feedback_page :: element where
  "feedback_page = Element ''[document]'' []
     [Element ''meta'' [(''name'', ''keywords''), (''content'', ''feedback, contact'')] [],
      Element ''form'' [(''class'', ''contact-form'')]
        [Element ''textarea'' [(''name'', ''message''), (''data-required'', ''1'')] [],
         Element ''select'' [(''name'', ''topic'')] [],
         Element ''input'' [(''type'', ''hidden''), (''name'', ''csrf'')] []]]"

definition site_get :: "string \<Rightarrow> py_exception + response" where
  "site_get url =
     (if url = ''http://site.test'' then Inr \<lparr>status = 200, body = Inr ''home''\<rparr>
      else if url = ''http://site.test/p1'' then Inr \<lparr>status = 200, body = Inr ''p1''\<rparr>
      else if url = ''http://site.test:8080'' then Inr \<lparr>status = 200, body = Inr ''alt''\<rparr>
      else if url = ''http://site.test/contact-us'' then Inr \<lparr>status = 200, body = Inr ''contact''\<rparr>
      else if url = ''http://site.test/contact-us/feedback''
      then Inr \<lparr>status = 200, body = Inr ''feedback''\<rparr>
      else if url = ''http://site.test/gone'' then Inr \<lparr>status = 404, body = Inr ''''\<rparr>
      else if url = ''http://site.test/binary'' then Inr \<lparr>status = 200, body = Inl DecodeError\<rparr>
      else if url = ''http://site.test/broken'' then Inr \<lparr>status = 200, body = Inr ''broken''\<rparr>
      else Inl ClientError)"

definition site_soup :: "string \<Rightarrow> py_exception + element" where
  "site_soup html =
     (if html = ''home'' then Inr home_page
      else if html = ''p1'' then Inr p1_page
      else if html = ''alt'' then Inr alt_page
      else if html = ''contact'' then Inr contact_page
      else if html = ''feedback'' then Inr feedback_page
      else Inl ParserError)"

definition site :: "nat list \<Rightarrow> env" where
  "site ks = \<lparr>urlparse = simple_urlparse, urljoin = simple_urljoin, session_get = site_get,
     beautiful_soup = site_soup, select_one = simple_select_one,
     elapsed_minutes = (\<lambda>k. 0), completion = (\<lambda>k. ks)\<rparr>"

section \<open>Properties of the extraction loops\<close>

lemma collect_fields_eq:
  "collect_fields els acc =
   acc @ map field_data_of (filter (\<lambda>field. field_type_of field \<noteq> ''hidden'' \<and>
                                           field_type_of field \<noteq> ''submit'') els)"
  by (induction els arbitrary: acc) (simp_all add: Let_def field_type_of_def field_data_of_def)

lemma collect_fields_types:
  "f \<in> set (collect_fields els []) \<Longrightarrow> fd_type f \<noteq> ''hidden'' \<and> fd_type f \<noteq> ''submit''"
  by (auto simp: collect_fields_eq field_data_of_def)

lemma collect_fields_all_hidden:
  "\<forall>field \<in> set els. field_type_of field = ''hidden'' \<or> field_type_of field = ''submit''
   \<Longrightarrow> collect_fields els [] = []"
  by (auto simp: collect_fields_eq filter_empty_conv)

subsection \<open>The two copies of the extraction loops\<close>

lemma pu_selectors_forms:
  "fst (pu_selectors E soup url meta config sels (forms, found)) =
   efi_selectors E soup url meta config sels forms"
  by (induction sels arbitrary: forms found) (auto simp: Let_def split: option.splits)

lemma pu_configs_forms:
  "fst (pu_configs E soup url meta cfgs (forms, found)) =
   efi_configs E soup url meta cfgs forms"
proof (induction cfgs arbitrary: forms found)
  case Nil
  show ?case by simp
next
  case (Cons a cfgs)
  obtain fragment config where a: "a = (fragment, config)" by (cases a)
  obtain f1 f2 where p: "pu_selectors E soup url meta config (selectors config) (forms, found) = (f1, f2)"
    by (cases "pu_selectors E soup url meta config (selectors config) (forms, found)")
  have "f1 = efi_selectors E soup url meta config (selectors config) forms"
    using pu_selectors_forms[of E soup url meta config "selectors config" forms found] p by simp
  then show ?case using Cons.IH a p by simp
qed

lemma process_html_forms:
  "fst (snd (process_html E s url html)) = extract_form_info E url html"
proof (cases "beautiful_soup E html")
  case (Inl e)
  then show ?thesis by (simp add: process_html_def extract_form_info_def)
next
  case (Inr soup)
  show ?thesis
    using pu_configs_forms[of E soup url "extract_meta_info soup url" form_configs "[]" "forms_found s"]
    by (simp add: process_html_def extract_form_info_def Inr Let_def case_prod_beta)
qed


lemma efi_selectors_append:
  "efi_selectors E soup url meta config sels forms =
   forms @ efi_selectors E soup url meta config sels []"
proof (induction sels arbitrary: forms)
  case Nil
  show ?case by simp
next
  case (Cons sel sels)
  show ?case
    using Cons.IH[of "forms @ [x]" for x] Cons.IH[of "[x]" for x] Cons.IH[of forms]
    by (simp add: Let_def split: option.splits)
qed

lemma efi_configs_append:
  "efi_configs E soup url meta cfgs forms = forms @ efi_configs E soup url meta cfgs []"
proof (induction cfgs arbitrary: forms)
  case Nil
  show ?case by simp
next
  case (Cons a cfgs)
  obtain fragment config where a: "a = (fragment, config)" by (cases a)
  show ?case
    using Cons.IH[of "efi_selectors E soup url meta config (selectors config) forms"]
          Cons.IH[of "efi_selectors E soup url meta config (selectors config) []"]
          Cons.IH[of forms]
          efi_selectors_append[of E soup url meta config "selectors config" forms]
    by (simp add: a)
qed

lemma efi_selectors_set:
  "set (efi_selectors E soup url meta config sels []) =
   {form_data_of url meta config sel form | sel form.
      sel \<in> set sels \<and> select_one E soup sel = Some form \<and>
      collect_fields (find_all form [''input'', ''textarea'', ''select'']) [] \<noteq> []}"
proof (induction sels)
  case Nil
  show ?case by simp
next
  case (Cons sel sels)
  show ?case
  proof (cases "select_one E soup sel")
    case None
    then show ?thesis using Cons.IH by auto
  next
    case (Some form)
    show ?thesis
    proof (cases "collect_fields (find_all form [''input'', ''textarea'', ''select'']) [] = []")
      case True
      then show ?thesis using Cons.IH Some by auto
    next
      case False
      have "efi_selectors E soup url meta config (sel # sels) [] =
            form_data_of url meta config sel form # efi_selectors E soup url meta config sels []"
        using Some False
          efi_selectors_append[of E soup url meta config sels "[form_data_of url meta config sel form]"]
        by (simp add: Let_def form_data_of_def)
      then show ?thesis using Cons.IH Some False by auto
    qed
  qed
qed

lemma efi_configs_set:
  "set (efi_configs E soup url meta cfgs []) =
   (\<Union>(fragment, config) \<in> set cfgs.
      if sublist fragment url \<or> fragment = ''/''
      then set (efi_selectors E soup url meta config (selectors config) []) else {})"
proof (induction cfgs)
  case Nil
  show ?case by simp
next
  case (Cons a cfgs)
  obtain fragment config where a: "a = (fragment, config)" by (cases a)
  show ?case
    using Cons.IH
      efi_configs_append[of E soup url meta cfgs "efi_selectors E soup url meta config (selectors config) []"]
    by (simp add: a)
qed

lemma pu_selectors_found:
  "snd (pu_selectors E soup url meta config sels (forms, found)) =
   append_new found (efi_selectors E soup url meta config sels [])"
proof (induction sels arbitrary: forms found)
  case Nil
  show ?case by simp
next
  case (Cons sel sels)
  show ?case
  proof (cases "select_one E soup sel")
    case None
    then show ?thesis using Cons.IH by simp
  next
    case (Some form)
    show ?thesis
      using Some Cons.IH efi_selectors_append[of E soup url meta config sels "[x]" for x]
      by (simp add: Let_def)
  qed
qed

lemma append_new_append: "append_new found (xs @ ys) = append_new (append_new found xs) ys"
  by (induction xs arbitrary: found) simp_all

lemma pu_configs_found:
  "snd (pu_configs E soup url meta cfgs (forms, found)) =
   append_new found (efi_configs E soup url meta cfgs [])"
proof (induction cfgs arbitrary: forms found)
  case Nil
  show ?case by simp
next
  case (Cons a cfgs)
  obtain fragment config where a: "a = (fragment, config)" by (cases a)
  obtain f1 f2 where p: "pu_selectors E soup url meta config (selectors config) (forms, found) = (f1, f2)"
    by (cases "pu_selectors E soup url meta config (selectors config) (forms, found)")
  have f2: "f2 = append_new found (efi_selectors E soup url meta config (selectors config) [])"
    using pu_selectors_found[of E soup url meta config "selectors config" forms found] p by simp
  show ?case
    using Cons.IH[of f1 f2] Cons.IH[of forms found] f2 p a
      efi_configs_append[of E soup url meta cfgs "efi_selectors E soup url meta config (selectors config) []"]
    by (simp add: append_new_append)
qed

lemma append_new_prefix: "prefix found (append_new found xs)"
proof (induction xs arbitrary: found)
  case Nil
  show ?case by simp
next
  case (Cons x xs)
  have "prefix found (if x \<notin> set found then found @ [x] else found)" by simp
  then show ?case using Cons.IH prefix_order.order_trans by fastforce
qed

lemma append_new_set: "set (append_new found xs) = set found \<union> set xs"
  by (induction xs arbitrary: found) auto

lemma append_new_distinct: "distinct found \<Longrightarrow> distinct (append_new found xs)"
  by (induction xs arbitrary: found) auto

lemma process_url_forms_found:
  "forms_found (fst (process_url E s url)) = append_new (forms_found s) (page_forms E url)"
proof (cases "page_soup E url")
  case None
  then show ?thesis
    by (auto simp: process_url_def page_soup_def page_forms_def process_html_def
             split: sum.splits if_splits)
next
  case (Some soup)
  then obtain response html where r: "session_get E url = Inr response" "status response = 200"
      "body response = Inr html" "beautiful_soup E html = Inr soup"
    by (auto simp: page_soup_def split: sum.splits if_splits)
  show ?thesis
    using pu_configs_found[of E soup url "extract_meta_info soup url" form_configs "[]" "forms_found s"]
    by (simp add: process_url_def process_html_def r page_forms_def Some Let_def case_prod_beta)
qed

lemma page_forms_origin:
  assumes "r \<in> set (page_forms E url)"
  shows "\<exists>soup fragment config form.
           page_soup E url = Some soup \<and> (fragment, config) \<in> set form_configs \<and>
           (sublist fragment url \<or> fragment = ''/'') \<and>
           form_selector r \<in> set (selectors config) \<and>
           select_one E soup (form_selector r) = Some form \<and>
           collect_fields (find_all form [''input'', ''textarea'', ''select'']) [] \<noteq> [] \<and>
           r = form_data_of url (extract_meta_info soup url) config (form_selector r) form"
proof -
  obtain soup where soup: "page_soup E url = Some soup"
    using assms by (cases "page_soup E url") (auto simp: page_forms_def)
  then have "r \<in> set (efi_configs E soup url (extract_meta_info soup url) form_configs [])"
    using assms by (simp add: page_forms_def)
  then obtain fragment config where fc: "(fragment, config) \<in> set form_configs"
      "sublist fragment url \<or> fragment = ''/''"
      "r \<in> set (efi_selectors E soup url (extract_meta_info soup url) config (selectors config) [])"
    by (auto simp: efi_configs_set split: if_splits)
  then obtain sel form where sf: "r = form_data_of url (extract_meta_info soup url) config sel form"
      "sel \<in> set (selectors config)" "select_one E soup sel = Some form"
      "collect_fields (find_all form [''input'', ''textarea'', ''select'']) [] \<noteq> []"
    by (auto simp: efi_selectors_set)
  have "form_selector r = sel" using sf(1) by (simp add: form_data_of_def)
  then show ?thesis using soup fc sf by blast
qed

subsection \<open>Properties of \<open>forms_found\<close> along a crawl\<close>

lemma process_tasks_forms_inv:
  assumes "\<And>s u. Q (forms_found s) \<Longrightarrow> Q (forms_found (fst (process_url E s u)))"
  shows "Q (forms_found s) \<Longrightarrow> Q (forms_found (fst (process_tasks E tasks (s, res))))"
proof (induction tasks arbitrary: s res)
  case Nil
  then show ?case by simp
next
  case (Cons t tasks)
  obtain i u where t: "t = (i, u)" by (cases t)
  obtain s' nu where p: "process_url E s u = (s', nu)" by (cases "process_url E s u")
  have "Q (forms_found s')" using assms[OF Cons.prems, of u] p by simp
  then show ?case using Cons.IH[of s' "res[i := nu]"] t p by simp
qed

lemma merge_results_forms_found [simp]: "forms_found (merge_results rs s) = forms_found s"
  by (induction rs arbitrary: s) simp_all

lemma crawl_step_forms_inv:
  assumes "\<And>s u. Q (forms_found s) \<Longrightarrow> Q (forms_found (fst (process_url E s u)))"
  shows "Q (forms_found s) \<Longrightarrow> Q (forms_found (crawl_step E k s))"
proof -
  assume q: "Q (forms_found s)"
  let ?s1 = "s\<lparr>queue := slice_from (batch_size s) (queue s)\<rparr>"
  have "Q (forms_found ?s1)" using q by simp
  from process_tasks_forms_inv[where Q = Q, OF assms this]
  show ?thesis
    by (simp add: crawl_step_def gather_def case_prod_beta)
qed

lemma run_forms_inv:
  assumes "\<And>s u. Q (forms_found s) \<Longrightarrow> Q (forms_found (fst (process_url E s u)))"
    and "Q []"
  shows "Q (forms_found (run E (init E u bs mp tm) n))"
proof (induction n)
  case 0
  show ?case using assms(2) by (simp add: crawl_start_def init_def)
next
  case (Suc n)
  show ?case using crawl_step_forms_inv[where Q = Q, OF assms(1) Suc] by simp
qed

lemma run_forms_all:
  assumes "\<And>url r. r \<in> set (page_forms E url) \<Longrightarrow> P r"
  shows "\<forall>r \<in> set (forms_found (run E (init E u bs mp tm) n)). P r"
proof -
  have "\<And>s u. (\<forall>r \<in> set (forms_found s). P r) \<Longrightarrow>
               (\<forall>r \<in> set (forms_found (fst (process_url E s u))). P r)"
    using assms by (auto simp: process_url_forms_found append_new_set)
  from run_forms_inv[where Q = "\<lambda>ff. \<forall>r \<in> set ff. P r", OF this]
  show ?thesis by simp
qed

section \<open>Claims about one page\<close>

text \<open>
  Claim C7, as the code has it. For each of the two tags exactly one of three cases
  holds, decided by the tag and by its content \<^emph>\<open>after\<close> \<open>strip()\<close>: the tag is absent,
  the flag is false and the issue "Missing meta ..." is recorded (and not "Empty ...");
  the tag is present and its content is empty once surrounding whitespace is stripped (a
  missing \<open>content\<close> attribute counts as empty), the flag is false and "Empty meta ..." is
  recorded (and not "Missing ..."); or the stripped content is non-empty, the flag is
  true, the stored text is the stripped content and neither issue is recorded.
\<close>

theorem meta_info_cases:
  "(case find_meta soup ''description'' of
      None \<Rightarrow>
        \<not> has_meta_description (extract_meta_info soup url) \<and>
        ''Missing meta description'' \<in> set (seo_issues (extract_meta_info soup url)) \<and>
        ''Empty meta description'' \<notin> set (seo_issues (extract_meta_info soup url))
    | Some tag \<Rightarrow>
        if strip_ws (get_attr tag ''content'' []) = []
        then \<not> has_meta_description (extract_meta_info soup url) \<and>
             ''Empty meta description'' \<in> set (seo_issues (extract_meta_info soup url)) \<and>
             ''Missing meta description'' \<notin> set (seo_issues (extract_meta_info soup url))
        else has_meta_description (extract_meta_info soup url) \<and>
             meta_description (extract_meta_info soup url) = strip_ws (get_attr tag ''content'' []) \<and>
             ''Empty meta description'' \<notin> set (seo_issues (extract_meta_info soup url)) \<and>
             ''Missing meta description'' \<notin> set (seo_issues (extract_meta_info soup url))) \<and>
   (case find_meta soup ''keywords'' of
      None \<Rightarrow>
        \<not> has_meta_keywords (extract_meta_info soup url) \<and>
        ''Missing meta keywords'' \<in> set (seo_issues (extract_meta_info soup url)) \<and>
        ''Empty meta keywords'' \<notin> set (seo_issues (extract_meta_info soup url))
    | Some tag \<Rightarrow>
        if strip_ws (get_attr tag ''content'' []) = []
        then \<not> has_meta_keywords (extract_meta_info soup url) \<and>
             ''Empty meta keywords'' \<in> set (seo_issues (extract_meta_info soup url)) \<and>
             ''Missing meta keywords'' \<notin> set (seo_issues (extract_meta_info soup url))
        else has_meta_keywords (extract_meta_info soup url) \<and>
             meta_keywords (extract_meta_info soup url) = strip_ws (get_attr tag ''content'' []) \<and>
             ''Empty meta keywords'' \<notin> set (seo_issues (extract_meta_info soup url)) \<and>
             ''Missing meta keywords'' \<notin> set (seo_issues (extract_meta_info soup url)))"
  by (simp add: extract_meta_info_def Let_def split: option.splits)

text \<open>The home page of the example site: a blank description, no keywords tag.\<close>

theorem meta_info_cases_witness:
  "find_meta home_page ''description'' =
     Some (Element ''meta'' [(''name'', ''description''), (''content'', '' '')] []) \<and>
   find_meta home_page ''keywords'' = None \<and>
   \<not> has_meta_description (extract_meta_info home_page ''http://site.test'') \<and>
   ''Empty meta description'' \<in> set (seo_issues (extract_meta_info home_page ''http://site.test'')) \<and>
   ''Missing meta keywords'' \<in> set (seo_issues (extract_meta_info home_page ''http://site.test''))"
proof -
  have d: "find_meta home_page ''description'' =
      Some (Element ''meta'' [(''name'', ''description''), (''content'', '' '')] [])"
    by code_simp
  have k: "find_meta home_page ''keywords'' = None" by code_simp
  have s: "strip_ws (get_attr (Element ''meta'' [(''name'', ''description''), (''content'', '' '')] [])
             ''content'' []) = []"
    by code_simp
  show ?thesis
    using meta_info_cases[of home_page "''http://site.test''"] d k s by simp
qed

text \<open>
  Claim C7 as stated fails: the description tag of the example home page is present and
  its content, one space, is not empty; yet the flag is false and "Empty meta
  description" is recorded, so none of the three cases of the claim holds.
\<close>

theorem meta_whitespace_content_counterexample:
  "find_meta home_page ''description'' =
     Some (Element ''meta'' [(''name'', ''description''), (''content'', '' '')] []) \<and>
   get_attr (Element ''meta'' [(''name'', ''description''), (''content'', '' '')] []) ''content'' []
     = '' '' \<and>
   has_meta_description (extract_meta_info home_page ''http://site.test'') = False \<and>
   seo_issues (extract_meta_info home_page ''http://site.test'') =
     [''Empty meta description'', ''Missing meta keywords'']"
  by code_simp

text \<open>
  Claim C10. For every URL, body and state, the list \<open>forms\<close> that the inline code of
  \<open>_process_url\<close> builds is the list that \<open>_extract_form_info\<close> returns for the same URL
  and body, element for element and in the same order (both are empty when the parse
  fails).
\<close>

theorem inline_forms_eq_extract_form_info:
  "fst (snd (process_html E s url html)) = extract_form_info E url html"
  by (rule process_html_forms)

section \<open>Claims about the forms of a crawl\<close>

subsection \<open>Facts about the catalog\<close>

lemma catalog_selectors_distinct:
  "distinct (concat (map (\<lambda>(fragment, config). selectors config) form_configs))"
  by code_simp

lemma catalog_fallback_all:
  "list_all (\<lambda>(fragment, config).
      list_all (\<lambda>sel. strip_chars ''.#'' (py_replace ''form'' [] sel) = spec_fallback_id sel)
        (selectors config)) form_configs"
  by code_simp

lemma catalog_fallback:
  "(fragment, config) \<in> set form_configs \<Longrightarrow> sel \<in> set (selectors config) \<Longrightarrow>
   strip_chars ''.#'' (py_replace ''form'' [] sel) = spec_fallback_id sel"
  using catalog_fallback_all by (auto simp: list_all_iff)

lemma distinct_concat_unique:
  "distinct (concat (map f xs)) \<Longrightarrow> x \<in> set xs \<Longrightarrow> y \<in> set xs \<Longrightarrow>
   a \<in> set (f x) \<Longrightarrow> a \<in> set (f y) \<Longrightarrow> x = y"
  by (induction xs) auto

lemma catalog_selector_entry:
  assumes "(fragment, config) \<in> set form_configs" "sel \<in> set (selectors config)"
    "(fragment', config') \<in> set form_configs" "sel \<in> set (selectors config')"
  shows "fragment' = fragment \<and> config' = config"
  using distinct_concat_unique[OF catalog_selectors_distinct assms(1) assms(3)] assms(2,4)
  by auto


subsection \<open>Field exclusion\<close>

text \<open>
  Claim C6. Every form record that a crawl has put into \<open>forms_found\<close>, after any number
  of passes of the loop, has a non-empty field list in which no field has the type
  \<open>hidden\<close> or \<open>submit\<close>. And when the element matched by a selector on a page has only
  fields of these two types, the processing of that page adds no record for that
  selector.
\<close>

theorem hidden_submit_excluded:
  "(\<forall>r \<in> set (forms_found (run E (init E u bs mp tm) n)).
      fm_fields r \<noteq> [] \<and>
      (\<forall>f \<in> set (fm_fields r). fd_type f \<noteq> ''hidden'' \<and> fd_type f \<noteq> ''submit'')) \<and>
   (page_soup E url = Some soup \<and> select_one E soup selector = Some form \<and>
    (\<forall>field \<in> set (find_all form [''input'', ''textarea'', ''select'']).
        field_type_of field = ''hidden'' \<or> field_type_of field = ''submit'')
    \<longrightarrow> (\<forall>r \<in> set (forms_found (fst (process_url E s url))).
           form_selector r = selector \<longrightarrow> r \<in> set (forms_found s)))"
proof (intro conjI impI)
  have "\<And>url r. r \<in> set (page_forms E url) \<Longrightarrow>
          fm_fields r \<noteq> [] \<and>
          (\<forall>f \<in> set (fm_fields r). fd_type f \<noteq> ''hidden'' \<and> fd_type f \<noteq> ''submit'')"
  proof -
    fix url r
    assume "r \<in> set (page_forms E url)"
    from page_forms_origin[OF this] obtain soup config form where
      o: "collect_fields (find_all form [''input'', ''textarea'', ''select'']) [] \<noteq> []"
         "r = form_data_of url (extract_meta_info soup url) config (form_selector r) form"
      by blast
    have f: "fm_fields r = collect_fields (find_all form [''input'', ''textarea'', ''select'']) []"
      using o(2) by (metis form_data.select_convs(5) form_data_of_def)
    show "fm_fields r \<noteq> [] \<and>
          (\<forall>f \<in> set (fm_fields r). fd_type f \<noteq> ''hidden'' \<and> fd_type f \<noteq> ''submit'')"
      using o(1) f collect_fields_types by auto
  qed
  from run_forms_all[where P = "\<lambda>r. fm_fields r \<noteq> [] \<and>
          (\<forall>f \<in> set (fm_fields r). fd_type f \<noteq> ''hidden'' \<and> fd_type f \<noteq> ''submit'')", OF this]
  show "\<forall>r \<in> set (forms_found (run E (init E u bs mp tm) n)).
      fm_fields r \<noteq> [] \<and>
      (\<forall>f \<in> set (fm_fields r). fd_type f \<noteq> ''hidden'' \<and> fd_type f \<noteq> ''submit'')" .
next
  assume h: "page_soup E url = Some soup \<and> select_one E soup selector = Some form \<and>
    (\<forall>field \<in> set (find_all form [''input'', ''textarea'', ''select'']).
        field_type_of field = ''hidden'' \<or> field_type_of field = ''submit'')"
  then have empty: "collect_fields (find_all form [''input'', ''textarea'', ''select'']) [] = []"
    using collect_fields_all_hidden by blast
  show "\<forall>r \<in> set (forms_found (fst (process_url E s url))).
           form_selector r = selector \<longrightarrow> r \<in> set (forms_found s)"
  proof (intro ballI impI)
    fix r
    assume r: "r \<in> set (forms_found (fst (process_url E s url)))" and sel: "form_selector r = selector"
    show "r \<in> set (forms_found s)"
    proof (rule ccontr)
      assume "r \<notin> set (forms_found s)"
      then have "r \<in> set (page_forms E url)"
        using r by (simp add: process_url_forms_found append_new_set)
      from page_forms_origin[OF this] obtain soup' form' where
        "page_soup E url = Some soup'" "select_one E soup' (form_selector r) = Some form'"
        "collect_fields (find_all form' [''input'', ''textarea'', ''select'']) [] \<noteq> []"
        by blast
      then show False using h sel empty by simp
    qed
  qed
qed

text \<open>
  On the example site: the contact page holds a form with a hidden and a submit input
  only, and a crawl of five passes collects four records.
\<close>

theorem hidden_submit_excluded_witness:
  "page_soup (site []) ''http://site.test/contact-us'' = Some contact_page \<and>
   select_one (site []) contact_page ''form.contact-form'' =
     Some (Element ''form'' [(''class'', ''contact-form'')]
        [Element ''input'' [(''type'', ''hidden''), (''name'', ''csrf'')] [],
         Element ''input'' [(''type'', ''submit'')] []]) \<and>
   map field_type_of (find_all (Element ''form'' [(''class'', ''contact-form'')]
        [Element ''input'' [(''type'', ''hidden''), (''name'', ''csrf'')] [],
         Element ''input'' [(''type'', ''submit'')] []]) [''input'', ''textarea'', ''select''])
     = [''hidden'', ''submit''] \<and>
   length (forms_found (run (site []) (init (site []) ''http://site.test/'' 1 500 30) 5)) = 4 \<and>
   list_all (\<lambda>r. fm_fields r \<noteq> [] \<and>
                 list_all (\<lambda>f. fd_type f \<noteq> ''hidden'' \<and> fd_type f \<noteq> ''submit'') (fm_fields r))
     (forms_found (run (site []) (init (site []) ''http://site.test/'' 1 500 30) 5)) \<and>
   filter (\<lambda>r. form_selector r = ''form.contact-form'')
     (forms_found (fst (process_url (site [])
        (crawl_start (init (site []) ''http://site.test/'' 1 500 30))
        ''http://site.test/contact-us''))) = []"
proof -
  let ?form = "Element ''form'' [(''class'', ''contact-form'')]
        [Element ''input'' [(''type'', ''hidden''), (''name'', ''csrf'')] [],
         Element ''input'' [(''type'', ''submit'')] []]"
  let ?c = "init (site []) ''http://site.test/'' 1 500 30"
  have h1: "page_soup (site []) ''http://site.test/contact-us'' = Some contact_page"
    by code_simp
  have h2: "select_one (site []) contact_page ''form.contact-form'' = Some ?form"
    by code_simp
  have h3: "map field_type_of (find_all ?form [''input'', ''textarea'', ''select''])
     = [''hidden'', ''submit'']"
    by code_simp
  have h3': "\<forall>field \<in> set (find_all ?form [''input'', ''textarea'', ''select'']).
        field_type_of field = ''hidden'' \<or> field_type_of field = ''submit''"
  proof
    fix field assume "field \<in> set (find_all ?form [''input'', ''textarea'', ''select''])"
    then have "field_type_of field \<in> set (map field_type_of (find_all ?form [''input'', ''textarea'', ''select'']))"
      by simp
    then show "field_type_of field = ''hidden'' \<or> field_type_of field = ''submit''"
      unfolding h3 by simp
  qed
  have h4: "length (forms_found (run (site []) ?c 5)) = 4" by code_simp
  have h5: "forms_found (crawl_start ?c) = []" by code_simp
  note t = hidden_submit_excluded[of "site []" "''http://site.test/''" 1 500 30 5
      "''http://site.test/contact-us''" contact_page "''form.contact-form''" ?form "crawl_start ?c"]
  have a: "list_all (\<lambda>r. fm_fields r \<noteq> [] \<and>
                 list_all (\<lambda>f. fd_type f \<noteq> ''hidden'' \<and> fd_type f \<noteq> ''submit'') (fm_fields r))
     (forms_found (run (site []) ?c 5))"
    using t by (simp add: list_all_iff)
  have b: "filter (\<lambda>r. form_selector r = ''form.contact-form'')
     (forms_found (fst (process_url (site []) (crawl_start ?c) ''http://site.test/contact-us''))) = []"
    using t h1 h2 h3' h5 by (simp add: filter_empty_conv)
  show ?thesis using h1 h2 h3 h4 a b by blast
qed


subsection \<open>The form id\<close>

text \<open>
  Claim C8. Every form record that a crawl has put into \<open>forms_found\<close> comes from an
  element matched by its selector on the page of its URL, and its form id is the \<open>id\<close>
  attribute of that element when the attribute is present and non-empty, and otherwise
  the selector with every occurrence of the word \<open>form\<close> removed and the leading \<open>.\<close> and
  \<open>#\<close> characters stripped. (The code strips these characters at the end as well; no
  selector of the catalog ends in one after the removal.)
\<close>

theorem form_id_rule:
  "\<forall>r \<in> set (forms_found (run E (init E u bs mp tm) n)).
     \<exists>soup form.
       page_soup E (fm_url r) = Some soup \<and> select_one E soup (form_selector r) = Some form \<and>
       form_id r = (if get_attr form ''id'' [] \<noteq> [] then get_attr form ''id'' []
                    else spec_fallback_id (form_selector r))"
proof -
  have "\<And>url r. r \<in> set (page_forms E url) \<Longrightarrow>
     \<exists>soup form.
       page_soup E (fm_url r) = Some soup \<and> select_one E soup (form_selector r) = Some form \<and>
       form_id r = (if get_attr form ''id'' [] \<noteq> [] then get_attr form ''id'' []
                    else spec_fallback_id (form_selector r))"
  proof -
    fix url r
    assume "r \<in> set (page_forms E url)"
    from page_forms_origin[OF this] obtain soup fragment config form where
      o: "page_soup E url = Some soup" "(fragment, config) \<in> set form_configs"
         "form_selector r \<in> set (selectors config)"
         "select_one E soup (form_selector r) = Some form"
         "r = form_data_of url (extract_meta_info soup url) config (form_selector r) form"
      by blast
    have u: "fm_url r = url"
      using o(5) by (metis form_data.select_convs(1) form_data_of_def)
    have i: "form_id r = make_form_id form (form_selector r)"
      using o(5) by (metis form_data.select_convs(2) form_data_of_def)
    have "form_id r = (if get_attr form ''id'' [] \<noteq> [] then get_attr form ''id'' []
                    else spec_fallback_id (form_selector r))"
      using i catalog_fallback[OF o(2) o(3)] by (simp add: make_form_id_def)
    then show "\<exists>soup form.
       page_soup E (fm_url r) = Some soup \<and> select_one E soup (form_selector r) = Some form \<and>
       form_id r = (if get_attr form ''id'' [] \<noteq> [] then get_attr form ''id'' []
                    else spec_fallback_id (form_selector r))"
      using o(1) o(4) u by blast
  qed
  from run_forms_all[where P = "\<lambda>r. \<exists>soup form.
       page_soup E (fm_url r) = Some soup \<and> select_one E soup (form_selector r) = Some form \<and>
       form_id r = (if get_attr form ''id'' [] \<noteq> [] then get_attr form ''id'' []
                    else spec_fallback_id (form_selector r))", OF this]
  show ?thesis .
qed

text \<open>
  On the example site; the fallback for \<open>form.contact-form\<close> is \<open>contact-\<close>, since the
  second \<open>form\<close> is removed too.
\<close>

theorem form_id_rule_witness:
  "list_all (\<lambda>r. \<exists>soup form.
       page_soup (site []) (fm_url r) = Some soup \<and>
       select_one (site []) soup (form_selector r) = Some form \<and>
       form_id r = (if get_attr form ''id'' [] \<noteq> [] then get_attr form ''id'' []
                    else spec_fallback_id (form_selector r)))
     (forms_found (run (site []) (init (site []) ''http://site.test/'' 1 500 30) 5)) \<and>
   map (\<lambda>r. (form_selector r, form_id r))
     (forms_found (run (site []) (init (site []) ''http://site.test/'' 1 500 30) 5)) =
     [(''form#home-recommendations'', ''home-recommendations''),
      (''form#home-recommendations'', ''home-recommendations''),
      (''form#home-recommendations'', ''home-recommendations''),
      (''form.contact-form'', ''contact-'')] \<and>
   spec_fallback_id ''form.contact-form'' = ''contact-''"
proof -
  have a: "map (\<lambda>r. (form_selector r, form_id r))
     (forms_found (run (site []) (init (site []) ''http://site.test/'' 1 500 30) 5)) =
     [(''form#home-recommendations'', ''home-recommendations''),
      (''form#home-recommendations'', ''home-recommendations''),
      (''form#home-recommendations'', ''home-recommendations''),
      (''form.contact-form'', ''contact-'')]"
    by code_simp
  have b: "spec_fallback_id ''form.contact-form'' = ''contact-''" by code_simp
  show ?thesis
    using form_id_rule[of "site []" "''http://site.test/''" 1 500 30 5] a b
    by (simp add: list_all_iff)
qed

subsection \<open>When a catalog entry is applied\<close>

lemma process_html_forms_set:
  assumes "beautiful_soup E html = Inr soup"
  shows "fst (snd (process_html E s url html)) =
         efi_configs E soup url (extract_meta_info soup url) form_configs []"
  using assms by (simp add: process_html_forms extract_form_info_def)

text \<open>
  Claim C1, as the code has it. Take an entry of the catalog and one of its selectors
  that matches an element with at least one kept field on the page. The inline
  extraction of \<open>_process_url\<close> yields a form for that selector if and only if the
  entry's fragment occurs somewhere in the whole URL string (scheme and host included)
  or the fragment is \<open>/\<close>. So the \<open>/\<close> entry is applied to every page.
\<close>

theorem entry_applied_iff:
  assumes "(fragment, config) \<in> set form_configs" and "selector \<in> set (selectors config)"
    and "beautiful_soup E html = Inr soup" and "select_one E soup selector = Some form"
    and "collect_fields (find_all form [''input'', ''textarea'', ''select'']) [] \<noteq> []"
  shows "(\<exists>r \<in> set (fst (snd (process_html E s url html))). form_selector r = selector) \<longleftrightarrow>
         (sublist fragment url \<or> fragment = ''/'')"
proof
  assume "\<exists>r \<in> set (fst (snd (process_html E s url html))). form_selector r = selector"
  then obtain r where r: "r \<in> set (efi_configs E soup url (extract_meta_info soup url) form_configs [])"
      "form_selector r = selector"
    using process_html_forms_set[OF assms(3)] by auto
  then obtain fragment' config' where fc: "(fragment', config') \<in> set form_configs"
      "sublist fragment' url \<or> fragment' = ''/''"
      "r \<in> set (efi_selectors E soup url (extract_meta_info soup url) config' (selectors config') [])"
    by (auto simp: efi_configs_set split: if_splits)
  then obtain sel form' where sf: "r = form_data_of url (extract_meta_info soup url) config' sel form'"
      "sel \<in> set (selectors config')"
    by (auto simp: efi_selectors_set)
  have "form_selector r = sel" using sf(1) by (simp add: form_data_of_def)
  then have "selector \<in> set (selectors config')" using r(2) sf(2) by simp
  from catalog_selector_entry[OF assms(1) assms(2) fc(1) this]
  show "sublist fragment url \<or> fragment = ''/''" using fc(2) by simp
next
  assume ap: "sublist fragment url \<or> fragment = ''/''"
  let ?r = "form_data_of url (extract_meta_info soup url) config selector form"
  have "?r \<in> set (efi_selectors E soup url (extract_meta_info soup url) config (selectors config) [])"
    using assms(2,4,5) by (auto simp: efi_selectors_set)
  then have "?r \<in> set (efi_configs E soup url (extract_meta_info soup url) form_configs [])"
    using assms(1) ap by (auto simp: efi_configs_set intro!: bexI[of _ "(fragment, config)"])
  moreover have "form_selector ?r = selector" by (simp add: form_data_of_def)
  ultimately show "\<exists>r \<in> set (fst (snd (process_html E s url html))). form_selector r = selector"
    using process_html_forms_set[OF assms(3)] by metis
qed

text \<open>
  On the example site: the feedback page under a URL that contains \<open>contact-us\<close>, and
  the same body under one that does not.
\<close>

theorem entry_applied_iff_witness:
  "(''contact-us'', \<lparr>cfg_name = ''Contact Form'', selectors = [''form.contact-form'']\<rparr>)
     \<in> set form_configs \<and>
   beautiful_soup (site []) ''feedback'' = Inr feedback_page \<and>
   select_one (site []) feedback_page ''form.contact-form'' =
     Some (Element ''form'' [(''class'', ''contact-form'')]
        [Element ''textarea'' [(''name'', ''message''), (''data-required'', ''1'')] [],
         Element ''select'' [(''name'', ''topic'')] [],
         Element ''input'' [(''type'', ''hidden''), (''name'', ''csrf'')] []]) \<and>
   map fd_type (collect_fields (find_all (Element ''form'' [(''class'', ''contact-form'')]
        [Element ''textarea'' [(''name'', ''message''), (''data-required'', ''1'')] [],
         Element ''select'' [(''name'', ''topic'')] [],
         Element ''input'' [(''type'', ''hidden''), (''name'', ''csrf'')] []])
      [''input'', ''textarea'', ''select'']) []) = [''textarea'', ''select''] \<and>
   sublist ''contact-us'' ''http://site.test/contact-us/feedback'' \<and>
   list_ex (\<lambda>r. form_selector r = ''form.contact-form'')
     (fst (snd (process_html (site []) (init (site []) ''http://site.test/'' 1 500 30)
        ''http://site.test/contact-us/feedback'' ''feedback''))) \<and>
   \<not> sublist ''contact-us'' ''http://site.test/p1'' \<and>
   \<not> list_ex (\<lambda>r. form_selector r = ''form.contact-form'')
     (fst (snd (process_html (site []) (init (site []) ''http://site.test/'' 1 500 30)
        ''http://site.test/p1'' ''feedback'')))"
proof -
  let ?cfg = "\<lparr>cfg_name = ''Contact Form'', selectors = [''form.contact-form'']\<rparr>"
  let ?form = "Element ''form'' [(''class'', ''contact-form'')]
        [Element ''textarea'' [(''name'', ''message''), (''data-required'', ''1'')] [],
         Element ''select'' [(''name'', ''topic'')] [],
         Element ''input'' [(''type'', ''hidden''), (''name'', ''csrf'')] []]"
  let ?c = "init (site []) ''http://site.test/'' 1 500 30"
  have h1: "(''contact-us'', ?cfg) \<in> set form_configs" by code_simp
  have h2: "''form.contact-form'' \<in> set (selectors ?cfg)" by simp
  have h3: "beautiful_soup (site []) ''feedback'' = Inr feedback_page" by code_simp
  have h4: "select_one (site []) feedback_page ''form.contact-form'' = Some ?form" by code_simp
  have h5: "map fd_type (collect_fields (find_all ?form [''input'', ''textarea'', ''select'']) [])
      = [''textarea'', ''select'']"
    by code_simp
  then have h5': "collect_fields (find_all ?form [''input'', ''textarea'', ''select'']) [] \<noteq> []"
    by auto
  have s1: "sublist ''contact-us'' ''http://site.test/contact-us/feedback''" by code_simp
  have s2: "\<not> sublist ''contact-us'' ''http://site.test/p1''" by code_simp
  have a: "list_ex (\<lambda>r. form_selector r = ''form.contact-form'')
     (fst (snd (process_html (site []) ?c ''http://site.test/contact-us/feedback'' ''feedback'')))"
    using entry_applied_iff[OF h1 h2 h3 h4 h5', of ?c "''http://site.test/contact-us/feedback''"] s1
    by (simp add: list_ex_iff)
  have b: "\<not> list_ex (\<lambda>r. form_selector r = ''form.contact-form'')
     (fst (snd (process_html (site []) ?c ''http://site.test/p1'' ''feedback'')))"
    using entry_applied_iff[OF h1 h2 h3 h4 h5', of ?c "''http://site.test/p1''"] s2
    by (simp add: list_ex_iff)
  show ?thesis using h1 h3 h4 h5 s1 s2 a b by blast
qed

text \<open>
  Claim C1 as stated fails twice. The page at \<open>http://site.test:8080\<close> is not the crawl
  root \<open>http://site.test\<close> and its path is empty, yet the \<open>/\<close> entry is applied to it and
  yields a form. And the fragment \<open>contact-us\<close> occurs in the host of
  \<open>http://contact-us.test/about\<close> but not in its path \<open>/about\<close>, yet the contact entry is
  applied.
\<close>

theorem root_entry_counterexample:
  "base_url (init (site []) ''http://site.test/'' 1 500 30) = ''http://site.test'' \<and>
   path (urlparse (site []) ''http://site.test:8080'') = [] \<and>
   map (\<lambda>r. (fm_url r, form_type r))
     (fst (snd (process_html (site []) (init (site []) ''http://site.test/'' 1 500 30)
        ''http://site.test:8080'' ''alt''))) =
     [(''http://site.test:8080'', ''Get Free Recommendations'')] \<and>
   path (urlparse (site []) ''http://contact-us.test/about'') = ''/about'' \<and>
   \<not> sublist ''contact-us'' ''/about'' \<and>
   map (\<lambda>r. (fm_url r, form_type r))
     (fst (snd (process_html (site []) (init (site []) ''http://site.test/'' 1 500 30)
        ''http://contact-us.test/about'' ''feedback''))) =
     [(''http://contact-us.test/about'', ''Contact Form'')]"
  by code_simp

section \<open>The state along a crawl\<close>

subsection \<open>What one call of \<open>_process_url\<close> does to the state\<close>

lemma link_loop_inv:
  "link_loop E keys b u hs (nu, all) = (nu', all') \<Longrightarrow> distinct nu \<Longrightarrow> set nu \<subseteq> all \<Longrightarrow>
   distinct nu' \<and> all' = all \<union> set nu' \<and> set nu \<subseteq> set nu' \<and> (set nu' - set nu) \<inter> all = {}"
proof (induction hs arbitrary: nu all)
  case Nil
  then show ?case by auto
next
  case (Cons href rest)
  show ?case
  proof (cases "href = [] \<or> prefix ''#'' href \<or> prefix ''mailto:'' href")
    case True
    then have "link_loop E keys b u rest (nu, all) = (nu', all')" using Cons.prems(1) by simp
    from Cons.IH[OF this Cons.prems(2,3)] show ?thesis .
  next
    case False
    note skip = False
    show ?thesis
    proof (cases "urljoin E u href")
      case (Inl e)
      then have "link_loop E keys b u rest (nu, all) = (nu', all')" using Cons.prems(1) skip by simp
      from Cons.IH[OF this Cons.prems(2,3)] show ?thesis .
    next
      case (Inr full)
      let ?n = "normalize_url E full"
      show ?thesis
      proof (cases "prefix b ?n \<and> should_crawl_url E full \<and> ?n \<notin> all")
        case False
        then have "link_loop E keys b u rest (nu, all) = (nu', all')"
          using Cons.prems(1) skip Inr by (auto simp: Let_def split: if_splits)
        from Cons.IH[OF this Cons.prems(2,3)] show ?thesis .
      next
        case True
        let ?nu1 = "if list_ex (\<lambda>form_path. sublist form_path (py_lower ?n)) keys
                    then ?n # nu else nu @ [?n]"
        have l: "link_loop E keys b u rest (?nu1, insert ?n all) = (nu', all')"
          using Cons.prems(1) skip Inr True by (auto simp: Let_def split: if_splits)
        have nin: "?n \<notin> set nu" using True Cons.prems(3) by auto
        have d: "distinct ?nu1" using Cons.prems(2) nin by simp
        have s: "set ?nu1 \<subseteq> insert ?n all" using Cons.prems(3) by auto
        have s1: "set ?nu1 = insert ?n (set nu)" by simp
        from Cons.IH[OF l d s] show ?thesis
          unfolding s1 using nin True by auto
      qed
    qed
  qed
qed

lemma process_html_state:
  assumes "process_html E s url html = (s', forms, nu)"
  shows "distinct nu \<and> all_urls s' = all_urls s \<union> set nu \<and> set nu \<inter> all_urls s = {} \<and>
         visited s' = visited s \<and> queue s' = queue s \<and> base_url s' = base_url s \<and>
         batch_size s' = batch_size s \<and> max_pages s' = max_pages s \<and>
         timeout_minutes s' = timeout_minutes s"
proof (cases "beautiful_soup E html")
  case (Inl e)
  then show ?thesis using assms by (auto simp: process_html_def)
next
  case (Inr soup)
  obtain nu1 all1 where l: "link_loop E (map fst form_configs) (base_url s) url (hrefs soup) ([], all_urls s) = (nu1, all1)"
    by (cases "link_loop E (map fst form_configs) (base_url s) url (hrefs soup) ([], all_urls s)")
  have inv: "distinct nu1 \<and> all1 = all_urls s \<union> set nu1 \<and> set nu1 \<inter> all_urls s = {}"
    using link_loop_inv[OF l] by auto
  have "nu = nu1 \<and> all_urls s' = all1 \<and> visited s' = visited s \<and> queue s' = queue s \<and>
        base_url s' = base_url s \<and> batch_size s' = batch_size s \<and> max_pages s' = max_pages s \<and>
        timeout_minutes s' = timeout_minutes s"
    using assms Inr l by (auto simp: process_html_def Let_def split: prod.splits)
  then show ?thesis using inv by simp
qed

lemma process_url_state:
  assumes "process_url E s url = (s', nu)"
  shows "distinct nu \<and> all_urls s' = all_urls s \<union> set nu \<and> set nu \<inter> all_urls s = {} \<and>
         visited s' = visited s \<and> queue s' = queue s \<and> base_url s' = base_url s \<and>
         batch_size s' = batch_size s \<and> max_pages s' = max_pages s \<and>
         timeout_minutes s' = timeout_minutes s"
proof (cases "\<exists>response html. session_get E url = Inr response \<and> status response = 200 \<and>
                 body response = Inr html")
  case False
  then have "s' = s \<and> nu = []"
    using assms by (auto simp: process_url_def split: sum.splits if_splits)
  then show ?thesis by simp
next
  case True
  then obtain response html where r: "session_get E url = Inr response" "status response = 200"
      "body response = Inr html"
    by blast
  obtain forms where "process_html E s url html = (s', forms, nu)"
    using assms r by (auto simp: process_url_def split: prod.splits)
  from process_html_state[OF this] show ?thesis .
qed


subsection \<open>The invariant of the loop\<close>

lemma process_tasks_state:
  assumes "process_tasks E tasks (s, res) = (s', res')"
    and "\<forall>r \<in> set res. distinct r \<and> set r \<subseteq> all_urls s"
  shows "(\<forall>r \<in> set res'. distinct r \<and> set r \<subseteq> all_urls s') \<and> all_urls s \<subseteq> all_urls s' \<and>
         visited s' = visited s \<and> queue s' = queue s \<and> base_url s' = base_url s \<and>
         batch_size s' = batch_size s \<and> max_pages s' = max_pages s \<and>
         timeout_minutes s' = timeout_minutes s"
  using assms
proof (induction tasks arbitrary: s res)
  case Nil
  then show ?case by simp
next
  case (Cons t tasks)
  obtain i u where t: "t = (i, u)" by (cases t)
  obtain s1 nu where p: "process_url E s u = (s1, nu)" by (cases "process_url E s u")
  note st = process_url_state[OF p]
  have rec: "process_tasks E tasks (s1, res[i := nu]) = (s', res')"
    using Cons.prems(1) t p by simp
  have "\<forall>r \<in> set (res[i := nu]). distinct r \<and> set r \<subseteq> all_urls s1"
  proof
    fix r assume "r \<in> set (res[i := nu])"
    then have "r = nu \<or> r \<in> set res" using set_update_subset_insert by fastforce
    then show "distinct r \<and> set r \<subseteq> all_urls s1"
      using st Cons.prems(2) by auto
  qed
  from Cons.IH[OF rec this] show ?case using st by auto
qed

lemma slice_append: "slice_to n xs @ slice_from n xs = xs"
  by (simp add: slice_to_def slice_from_def)

lemma merge_results_inv:
  assumes "frontier_inv F s" and "\<forall>r \<in> set rs. distinct r \<and> set r \<subseteq> all_urls s"
  shows "frontier_inv F (merge_results rs s) \<and> prefix (queue s) (queue (merge_results rs s)) \<and>
         all_urls (merge_results rs s) = all_urls s \<and>
         base_url (merge_results rs s) = base_url s \<and>
         batch_size (merge_results rs s) = batch_size s \<and>
         max_pages (merge_results rs s) = max_pages s \<and>
         timeout_minutes (merge_results rs s) = timeout_minutes s"
  using assms
proof (induction rs arbitrary: s)
  case Nil
  then show ?case by simp
next
  case (Cons nu rs)
  let ?add = "filter (\<lambda>url. url \<notin> visited s) nu"
  let ?s1 = "s\<lparr>queue := queue s @ ?add, visited := visited s \<union> set ?add\<rparr>"
  have nu: "distinct nu" "set nu \<subseteq> all_urls s" using Cons.prems(2) by auto
  have inv1: "frontier_inv F ?s1"
    using Cons.prems(1) nu unfolding frontier_inv_def by auto
  have rs1: "\<forall>r \<in> set rs. distinct r \<and> set r \<subseteq> all_urls ?s1"
    using Cons.prems(2) by simp
  have "prefix (queue s) (queue ?s1)" by simp
  then show ?case
    using Cons.IH[OF inv1 rs1] prefix_order.order_trans by fastforce
qed

lemma crawl_step_inv:
  assumes "frontier_inv F s"
  shows "frontier_inv (F @ current_batch s) (crawl_step E k s) \<and>
         prefix (slice_from (batch_size s) (queue s)) (queue (crawl_step E k s)) \<and>
         all_urls s \<subseteq> all_urls (crawl_step E k s) \<and>
         base_url (crawl_step E k s) = base_url s \<and>
         batch_size (crawl_step E k s) = batch_size s \<and>
         max_pages (crawl_step E k s) = max_pages s \<and>
         timeout_minutes (crawl_step E k s) = timeout_minutes s"
proof -
  let ?s1 = "s\<lparr>queue := slice_from (batch_size s) (queue s)\<rparr>"
  obtain s2 res where g: "gather E (completion E k) (current_batch s) ?s1 = (s2, res)"
    by (cases "gather E (completion E k) (current_batch s) ?s1")
  have "\<forall>r \<in> set (replicate (length (current_batch s)) ([]::string list)).
          distinct r \<and> set r \<subseteq> all_urls ?s1"
    by simp
  from process_tasks_state[OF g[unfolded gather_def] this]
  have st: "\<forall>r \<in> set res. distinct r \<and> set r \<subseteq> all_urls s2" "all_urls s \<subseteq> all_urls s2"
      "visited s2 = visited s" "queue s2 = slice_from (batch_size s) (queue s)"
      "base_url s2 = base_url s" "batch_size s2 = batch_size s" "max_pages s2 = max_pages s"
      "timeout_minutes s2 = timeout_minutes s"
    by simp_all
  have "(F @ current_batch s) @ queue s2 = F @ queue s"
    using st(4) slice_append[of "batch_size s" "queue s"] by (simp add: current_batch_def)
  then have inv2: "frontier_inv (F @ current_batch s) s2"
    using assms st(2,3) unfolding frontier_inv_def by auto
  have c: "crawl_step E k s = merge_results res s2"
    using g by (simp add: crawl_step_def)
  show ?thesis
    using merge_results_inv[OF inv2 st(1)] st c by simp
qed

lemma run_inv:
  "frontier_inv (fetched E (init E u bs mp tm) n) (run E (init E u bs mp tm) n) \<and>
   base_url (run E (init E u bs mp tm) n) = normalize_url E u \<and>
   batch_size (run E (init E u bs mp tm) n) = bs \<and>
   max_pages (run E (init E u bs mp tm) n) = mp \<and>
   timeout_minutes (run E (init E u bs mp tm) n) = tm"
proof (induction n)
  case 0
  show ?case by (simp add: frontier_inv_def crawl_start_def init_def)
next
  case (Suc n)
  then show ?case
    using crawl_step_inv[of "fetched E (init E u bs mp tm) n" "run E (init E u bs mp tm) n" E n]
    by simp
qed

subsection \<open>The loop and its history\<close>

lemma crawl_loop_run:
  "crawl_loop E fuel k (run E c k) = Some (reason, k', s) \<Longrightarrow> s = run E c k' \<and> k \<le> k'"
proof (induction fuel arbitrary: k)
  case 0
  then show ?case by simp
next
  case (Suc fuel)
  show ?case
  proof (cases "queue (run E c k) = [] \<or> should_stop_crawling E k (run E c k) \<noteq> None")
    case True
    then show ?thesis using Suc.prems by (auto split: option.splits if_splits)
  next
    case False
    then have "crawl_loop E fuel (Suc k) (run E c (Suc k)) = Some (reason, k', s)"
      using Suc.prems by (auto split: option.splits)
    from Suc.IH[OF this] show ?thesis by simp
  qed
qed

lemma crawl_run:
  "crawl E fuel c = Some (reason, k, s, rows) \<Longrightarrow> s = run E c k \<and> rows = save_forms_to_csv s"
  using crawl_loop_run[of E fuel 0 c]
  by (auto simp: crawl_def split: option.splits)

subsection \<open>The order of the queue and of the forms\<close>


lemma merge_results_prefix: "prefix (queue s) (queue (merge_results rs s))"
proof (induction rs arbitrary: s)
  case Nil
  show ?case by simp
next
  case (Cons nu rs)
  let ?s1 = "s\<lparr>queue := queue s @ filter (\<lambda>url. url \<notin> visited s) nu,
                visited := visited s \<union> set (filter (\<lambda>url. url \<notin> visited s) nu)\<rparr>"
  have "prefix (queue s) (queue ?s1)" by simp
  then show ?case using Cons.IH[of ?s1] prefix_order.order_trans by fastforce
qed

lemma process_tasks_queue:
  "queue (fst (process_tasks E tasks (s, res))) = queue s"
proof (induction tasks arbitrary: s res)
  case Nil
  show ?case by simp
next
  case (Cons t tasks)
  obtain i u where t: "t = (i, u)" by (cases t)
  obtain s1 nu where p: "process_url E s u = (s1, nu)" by (cases "process_url E s u")
  show ?case using Cons.IH[of s1 "res[i := nu]"] process_url_state[OF p] t p by simp
qed

lemma crawl_step_prefix:
  "prefix (slice_from (batch_size s) (queue s)) (queue (crawl_step E k s))"
proof -
  let ?s1 = "s\<lparr>queue := slice_from (batch_size s) (queue s)\<rparr>"
  obtain s2 res where g: "gather E (completion E k) (current_batch s) ?s1 = (s2, res)"
    by (cases "gather E (completion E k) (current_batch s) ?s1")
  have "queue s2 = slice_from (batch_size s) (queue s)"
    using process_tasks_queue[of E _ ?s1] g by (simp add: gather_def) (metis fst_conv)
  then show ?thesis
    using merge_results_prefix[of s2 res] g by (simp add: crawl_step_def)
qed

lemma pick_order_map: "map f (pick_order ks xs) = pick_order ks (map f xs)"
proof (induction ks arbitrary: xs)
  case Nil
  show ?case by simp
next
  case (Cons k ks)
  show ?case
  proof (cases "xs = []")
    case True
    then show ?thesis by simp
  next
    case False
    then have "k mod length xs < length xs" by simp
    then show ?thesis using Cons.IH False by (simp add: Let_def take_map drop_map)
  qed
qed

lemma process_tasks_forms_found:
  "forms_found (fst (process_tasks E tasks (s, res))) =
   append_new (forms_found s) (concat (map (\<lambda>t. page_forms E (snd t)) tasks))"
proof (induction tasks arbitrary: s res)
  case Nil
  show ?case by simp
next
  case (Cons t tasks)
  obtain i u where t: "t = (i, u)" by (cases t)
  obtain s1 nu where p: "process_url E s u = (s1, nu)" by (cases "process_url E s u")
  have "forms_found s1 = append_new (forms_found s) (page_forms E u)"
    using process_url_forms_found[of E s u] p by simp
  then show ?case using Cons.IH[of s1 "res[i := nu]"] t p by (simp add: append_new_append)
qed

lemma crawl_step_forms_found:
  "forms_found (crawl_step E k s) =
   append_new (forms_found s)
     (concat (map (page_forms E) (pick_order (completion E k) (current_batch s))))"
proof -
  let ?b = "current_batch s"
  have m: "map snd (pick_order (completion E k) (zip [0..<length ?b] ?b)) =
        pick_order (completion E k) ?b"
    by (simp add: pick_order_map)
  have "map (\<lambda>t. page_forms E (snd t)) (pick_order (completion E k) (zip [0..<length ?b] ?b)) =
        map (page_forms E) (map snd (pick_order (completion E k) (zip [0..<length ?b] ?b)))"
    by simp
  then have "map (\<lambda>t. page_forms E (snd t)) (pick_order (completion E k) (zip [0..<length ?b] ?b)) =
        map (page_forms E) (pick_order (completion E k) ?b)"
    unfolding m .
  then show ?thesis
    by (simp add: crawl_step_def gather_def case_prod_beta process_tasks_forms_found)
qed

subsection \<open>Completion orders\<close>

text \<open>
  \<open>pick_order\<close> yields permutations of the tasks only, and every permutation of them:
  the statements about a pass of the loop hold for every order in which the requests of
  a batch can complete.
\<close>

lemma remove_nth_mset:
  "i < length xs \<Longrightarrow> mset (take i xs @ drop (Suc i) xs) + {#xs ! i#} = mset xs"
proof -
  assume "i < length xs"
  then have "xs = take i xs @ xs ! i # drop (Suc i) xs" by (rule id_take_nth_drop)
  then have "mset xs = mset (take i xs @ xs ! i # drop (Suc i) xs)" by simp
  then show ?thesis by simp
qed


lemma pick_order_any: "mset ys = mset xs \<Longrightarrow> \<exists>ks. pick_order ks xs = ys"
proof (induction ys arbitrary: xs)
  case Nil
  then have "pick_order [] xs = []" by simp
  then show ?case by blast
next
  case (Cons y ys)
  then have "y \<in> set xs" by (metis list.set_intros(1) set_mset_mset)
  then obtain i where i: "i < length xs" "xs ! i = y" by (auto simp: in_set_conv_nth)
  have "mset (take i xs @ drop (Suc i) xs) + {#y#} = mset ys + {#y#}"
    using remove_nth_mset[OF i(1)] i(2) Cons.prems by simp
  then have "mset ys = mset (take i xs @ drop (Suc i) xs)" by simp
  from Cons.IH[OF this] obtain ks where ks: "pick_order ks (take i xs @ drop (Suc i) xs) = ys"
    by blast
  have "xs \<noteq> []" using i(1) by auto
  then have "pick_order (i # ks) xs = y # ys" using i ks by (simp add: Let_def)
  then show ?case by blast
qed

subsection \<open>Termination\<close>

text \<open>
  With a batch size of at least 1 the loop ends: every pass that the loop condition
  allows requests at least one URL, and the number of URLs requested stays below
  \<open>max_pages\<close> as long as the condition holds. So enough fuel gives a result.
\<close>

lemma slice_to_nonempty: "1 \<le> n \<Longrightarrow> xs \<noteq> [] \<Longrightarrow> slice_to n xs \<noteq> []"
  by (cases xs) (auto simp: slice_to_def nat_le_iff take_Cons')

lemma crawl_loop_more_fuel:
  "crawl_loop E fuel k s = Some r \<Longrightarrow> crawl_loop E (Suc fuel) k s = Some r"
proof (induction fuel arbitrary: k s)
  case 0
  then show ?case by simp
next
  case (Suc fuel)
  show ?case
  proof (cases "queue s = [] \<or> should_stop_crawling E k s \<noteq> None")
    case True
    then show ?thesis using Suc.prems by (auto split: option.splits if_splits)
  next
    case False
    then have "crawl_loop E fuel (Suc k) (crawl_step E k s) = Some r"
      using Suc.prems by (auto split: option.splits)
    from Suc.IH[OF this] show ?thesis using False by (auto split: option.splits)
  qed
qed

lemma crawl_loop_ends:
  assumes "1 \<le> bs"
  shows "\<exists>fuel r. crawl_loop E fuel k (run E (init E u bs mp tm) k) = Some r"
proof (induction k rule: measure_induct_rule[where
          f = "\<lambda>k. nat (mp - int (length (fetched E (init E u bs mp tm) k)))"])
  case (less k)
  let ?c = "init E u bs mp tm"
  let ?s = "run E ?c k"
  note inv = run_inv[of E u bs mp tm k]
  have fi: "frontier_inv (fetched E ?c k) ?s" using inv by blast
  then have card: "card (visited ?s) = length (fetched E ?c k @ queue ?s)"
    unfolding frontier_inv_def by (metis distinct_card)
  show ?case
  proof (cases "queue ?s = [] \<or> should_stop_crawling E k ?s \<noteq> None")
    case True
    then have "\<exists>r. crawl_loop E (Suc 0) k ?s = Some r"
      by (auto split: option.splits)
    then show ?thesis by blast
  next
    case False
    then have q: "queue ?s \<noteq> []" and go: "should_stop_crawling E k ?s = None" by auto
    have "int (length (fetched E ?c k @ queue ?s)) < mp"
      using go inv card by (auto simp: should_stop_crawling_def split: if_splits)
    then have lt: "int (length (fetched E ?c k)) < mp" by simp
    have b: "current_batch ?s \<noteq> []"
      using slice_to_nonempty[OF assms q] inv by (simp add: current_batch_def)
    then have "length (fetched E ?c k) < length (fetched E ?c (Suc k))" by simp
    then have "nat (mp - int (length (fetched E ?c (Suc k)))) < nat (mp - int (length (fetched E ?c k)))"
      using lt by linarith
    from less[OF this] obtain fuel r where
      "crawl_loop E fuel (Suc k) (run E ?c (Suc k)) = Some r" by blast
    then have "crawl_loop E (Suc fuel) k ?s = Some r" using q go by simp
    then show ?thesis by blast
  qed
qed

lemma crawl_ends:
  assumes "1 \<le> bs"
  shows "\<exists>fuel r. crawl E fuel (init E u bs mp tm) = Some r"
proof -
  from crawl_loop_ends[OF assms, of E 0 u mp tm] obtain fuel r where
    r: "crawl_loop E fuel 0 (crawl_start (init E u bs mp tm)) = Some r" by auto
  obtain reason k s where "r = (reason, k, s)" by (cases r)
  then have "crawl E fuel (init E u bs mp tm) = Some (reason, k, s, save_forms_to_csv s)"
    using r by (simp add: crawl_def)
  then show ?thesis by blast
qed

section \<open>Claims about the crawl\<close>

subsection \<open>Failures of one URL\<close>

text \<open>
  Claim C9. When the request for a URL raises (connection error, timeout), or its status
  is not 200, or the reading of its body raises, or the parse of the body raises, the
  call of \<open>_process_url\<close> returns the empty list and leaves the state as it was: no form
  and no link comes from that URL. No error leaves the call, which is a total function
  here, and the other tasks of the batch go on from the unchanged state.
\<close>

theorem failed_url_contributes_nothing:
  assumes "(\<exists>e. session_get E url = Inl e) \<or>
           (\<exists>response. session_get E url = Inr response \<and>
              (status response \<noteq> 200 \<or> (\<exists>e. body response = Inl e) \<or>
               (\<exists>html e. body response = Inr html \<and> beautiful_soup E html = Inl e)))"
  shows "process_url E s url = (s, []) \<and>
         process_tasks E ((i, url) # rest) (s, results) =
           process_tasks E rest (s, results[i := []])"
proof -
  have "process_url E s url = (s, [])"
    using assms
    by (auto simp: process_url_def process_html_def split: sum.splits)
  then show ?thesis by simp
qed

text \<open>Four failing URLs of the example site, one for each kind of failure.\<close>

theorem failed_url_contributes_nothing_witness:
  "session_get (site []) ''http://site.test/nowhere'' = Inl ClientError \<and>
   process_url (site []) (crawl_start (init (site []) ''http://site.test/'' 1 500 30))
     ''http://site.test/nowhere'' =
     (crawl_start (init (site []) ''http://site.test/'' 1 500 30), []) \<and>
   map_sum id status (session_get (site []) ''http://site.test/gone'') = Inr 404 \<and>
   process_url (site []) (crawl_start (init (site []) ''http://site.test/'' 1 500 30))
     ''http://site.test/gone'' =
     (crawl_start (init (site []) ''http://site.test/'' 1 500 30), []) \<and>
   map_sum id body (session_get (site []) ''http://site.test/binary'') = Inr (Inl DecodeError) \<and>
   process_url (site []) (crawl_start (init (site []) ''http://site.test/'' 1 500 30))
     ''http://site.test/binary'' =
     (crawl_start (init (site []) ''http://site.test/'' 1 500 30), []) \<and>
   map_sum id body (session_get (site []) ''http://site.test/broken'') = Inr (Inr ''broken'') \<and>
   beautiful_soup (site []) ''broken'' = Inl ParserError \<and>
   process_url (site []) (crawl_start (init (site []) ''http://site.test/'' 1 500 30))
     ''http://site.test/broken'' =
     (crawl_start (init (site []) ''http://site.test/'' 1 500 30), [])"
proof -
  let ?s = "crawl_start (init (site []) ''http://site.test/'' 1 500 30)"
  have a: "session_get (site []) ''http://site.test/nowhere'' = Inl ClientError" by code_simp
  have b: "session_get (site []) ''http://site.test/gone'' = Inr \<lparr>status = 404, body = Inr []\<rparr>"
    by code_simp
  have c: "session_get (site []) ''http://site.test/binary'' =
             Inr \<lparr>status = 200, body = Inl DecodeError\<rparr>"
    by code_simp
  have d: "session_get (site []) ''http://site.test/broken'' =
             Inr \<lparr>status = 200, body = Inr ''broken''\<rparr>"
    by code_simp
  have e: "beautiful_soup (site []) ''broken'' = Inl ParserError" by code_simp
  have pa: "process_url (site []) ?s ''http://site.test/nowhere'' = (?s, [])"
    using failed_url_contributes_nothing[of "site []" "''http://site.test/nowhere''" ?s] a
    by simp
  have pb: "process_url (site []) ?s ''http://site.test/gone'' = (?s, [])"
    using failed_url_contributes_nothing[of "site []" "''http://site.test/gone''" ?s] b
    by simp
  have pc: "process_url (site []) ?s ''http://site.test/binary'' = (?s, [])"
    using failed_url_contributes_nothing[of "site []" "''http://site.test/binary''" ?s] c
    by simp
  have pd: "process_url (site []) ?s ''http://site.test/broken'' = (?s, [])"
    using failed_url_contributes_nothing[of "site []" "''http://site.test/broken''" ?s] d e
    by simp
  show ?thesis using a b c d e pa pb pc pd by simp
qed

subsection \<open>Deduplication of the frontier\<close>

text \<open>
  Claim C4. A URL leaves the queue only with its batch, so the URLs ever put on the
  queue, in order, are those requested so far followed by those still waiting; this list
  only grows at its end from one pass to the next. For a crawl from a fresh crawler, after
  any number of passes and whatever the order in which the requests complete, no
  normalized URL occurs twice in it, and each of its members is in \<open>all_urls\<close>. For one
  call of \<open>_process_url\<close>: the returned keys are pairwise different, none of them was in
  \<open>all_urls\<close> before, and all of them are in \<open>all_urls\<close> afterwards, so a later discovery of
  the same key, in whatever spelling, is rejected.
\<close>

theorem url_enqueued_at_most_once:
  "distinct (fetched E (init E u bs mp tm) n @ queue (run E (init E u bs mp tm) n)) \<and>
   set (fetched E (init E u bs mp tm) n @ queue (run E (init E u bs mp tm) n))
     \<subseteq> all_urls (run E (init E u bs mp tm) n) \<and>
   prefix (fetched E (init E u bs mp tm) n @ queue (run E (init E u bs mp tm) n))
     (fetched E (init E u bs mp tm) (Suc n) @ queue (run E (init E u bs mp tm) (Suc n))) \<and>
   distinct (snd (process_url E s url)) \<and>
   set (snd (process_url E s url)) \<inter> all_urls s = {} \<and>
   all_urls (fst (process_url E s url)) = all_urls s \<union> set (snd (process_url E s url))"
proof -
  let ?c = "init E u bs mp tm"
  have inv: "frontier_inv (fetched E ?c n) (run E ?c n)" using run_inv by blast
  have 1: "distinct (fetched E ?c n @ queue (run E ?c n))"
    and 2: "set (fetched E ?c n @ queue (run E ?c n)) \<subseteq> all_urls (run E ?c n)"
    using inv unfolding frontier_inv_def by auto
  have "prefix (slice_from (batch_size (run E ?c n)) (queue (run E ?c n)))
          (queue (run E ?c (Suc n)))"
    using crawl_step_prefix[of "run E ?c n" E n] by simp
  then obtain added where
    q: "queue (run E ?c (Suc n)) = slice_from (batch_size (run E ?c n)) (queue (run E ?c n)) @ added"
    by (auto simp: prefix_def)
  have "fetched E ?c (Suc n) @ queue (run E ?c (Suc n)) =
        (fetched E ?c n @ queue (run E ?c n)) @ added"
    using q slice_append[of "batch_size (run E ?c n)" "queue (run E ?c n)"]
    by (simp add: current_batch_def)
  then have 3: "prefix (fetched E ?c n @ queue (run E ?c n))
     (fetched E ?c (Suc n) @ queue (run E ?c (Suc n)))"
    by (metis prefixI)
  obtain s' nu where p: "process_url E s url = (s', nu)" by (cases "process_url E s url")
  have 4: "distinct (snd (process_url E s url)) \<and>
   set (snd (process_url E s url)) \<inter> all_urls s = {} \<and>
   all_urls (fst (process_url E s url)) = all_urls s \<union> set (snd (process_url E s url))"
    using process_url_state[OF p] p by simp
  show ?thesis using 1 2 3 4 by blast
qed

text \<open>
  On the example site: the second page links to the contact page in two spellings, which
  normalize to one key, enqueued once.
\<close>

theorem url_enqueued_at_most_once_witness:
  "distinct (fetched (site []) (init (site []) ''http://site.test/'' 1 500 30) 3 @
             queue (run (site []) (init (site []) ''http://site.test/'' 1 500 30) 3)) \<and>
   fetched (site []) (init (site []) ''http://site.test/'' 1 500 30) 3 @
     queue (run (site []) (init (site []) ''http://site.test/'' 1 500 30) 3) =
     [''http://site.test'', ''http://site.test/p1'', ''http://site.test:8080'',
      ''http://site.test/contact-us''] \<and>
   hrefs p1_page = [''/contact-us/'', ''http://SITE.test//contact-us'', ''#top'', ''/logo.png''] \<and>
   normalize_url (site []) ''http://site.test/contact-us/'' = ''http://site.test/contact-us'' \<and>
   normalize_url (site []) ''http://SITE.test//contact-us'' = ''http://site.test/contact-us''"
proof -
  have a: "fetched (site []) (init (site []) ''http://site.test/'' 1 500 30) 3 @
     queue (run (site []) (init (site []) ''http://site.test/'' 1 500 30) 3) =
     [''http://site.test'', ''http://site.test/p1'', ''http://site.test:8080'',
      ''http://site.test/contact-us'']"
    by code_simp
  have b: "hrefs p1_page = [''/contact-us/'', ''http://SITE.test//contact-us'', ''#top'', ''/logo.png'']"
    by code_simp
  have c: "normalize_url (site []) ''http://site.test/contact-us/'' = ''http://site.test/contact-us''"
    by code_simp
  have d: "normalize_url (site []) ''http://SITE.test//contact-us'' = ''http://site.test/contact-us''"
    by code_simp
  show ?thesis
    using url_enqueued_at_most_once[of "site []" "''http://site.test/''" 1 500 30 3] a b c d
    by simp
qed

subsection \<open>The visited set and the page limit\<close>

text \<open>
  What the code keeps in \<open>visited\<close>: a URL is marked when it is put on the queue, not
  when it is requested. After any number of passes \<open>visited\<close> consists of the URLs
  requested so far and the URLs still waiting. The final state of a crawl is the state
  after the passes it made. With \<open>max_pages = 1\<close> the crawl ends as soon as it has any
  fuel at all, by the page limit and before its first pass.
\<close>

lemma visited_is_enqueued:
  "set (fetched E (init E u bs mp tm) n) \<subseteq> visited (run E (init E u bs mp tm) n) \<and>
   visited (run E (init E u bs mp tm) n) =
     set (fetched E (init E u bs mp tm) n) \<union> set (queue (run E (init E u bs mp tm) n)) \<and>
   (crawl E fuel (init E u bs mp tm) = Some (reason, k, s, rows) \<longrightarrow>
      s = run E (init E u bs mp tm) k) \<and>
   (mp = 1 \<longrightarrow>
      crawl E (Suc fuel) (init E u bs mp tm) =
        Some (PageLimitReached, 0, run E (init E u bs mp tm) 0, None) \<and>
      visited (run E (init E u bs mp tm) 0) = {normalize_url E u} \<and>
      card (visited (run E (init E u bs mp tm) 0)) = 1 \<and>
      queue (run E (init E u bs mp tm) 0) = [normalize_url E u] \<and>
      fetched E (init E u bs mp tm) 0 = [])"
proof -
  let ?c = "init E u bs mp tm"
  have inv: "frontier_inv (fetched E ?c n) (run E ?c n)" using run_inv by blast
  have 1: "set (fetched E ?c n) \<subseteq> visited (run E ?c n)"
    and 2: "visited (run E ?c n) = set (fetched E ?c n) \<union> set (queue (run E ?c n))"
    using inv unfolding frontier_inv_def by auto
  have 3: "crawl E fuel ?c = Some (reason, k, s, rows) \<longrightarrow> s = run E ?c k"
    using crawl_run by blast
  have 4: "mp = 1 \<longrightarrow>
      crawl E (Suc fuel) ?c = Some (PageLimitReached, 0, run E ?c 0, None) \<and>
      visited (run E ?c 0) = {normalize_url E u} \<and>
      card (visited (run E ?c 0)) = 1 \<and>
      queue (run E ?c 0) = [normalize_url E u] \<and>
      fetched E ?c 0 = []"
    by (simp add: crawl_def crawl_start_def init_def should_stop_crawling_def
          save_forms_to_csv_def)
  show ?thesis using 1 2 3 4 by blast
qed

text \<open>
  Claim C2 fails on the code, which breaks its own words about a page budget. With
  \<open>max_pages = 2\<close> and batches of one, the crawl of the example site requests the home
  page only; \<open>visited\<close> then holds three URLs, two of them never requested, the log line
  of the pass reads "Processed 3 pages, 2 remaining", and the crawl ends by the page
  limit. With \<open>max_pages = 1\<close> it ends with the root in \<open>visited\<close> and no page requested
  at all. So \<open>visited\<close> is not the set of URLs fetched, and a page budget of \<open>n\<close> does not
  let \<open>n\<close> pages be fetched.
\<close>

theorem page_budget_counts_enqueued_urls:
  "map_option (\<lambda>(reason, k, s, rows). (reason, k, visited s, queue s, processed_log s))
     (crawl (site []) 10 (init (site []) ''http://site.test/'' 1 2 30)) =
     Some (PageLimitReached, 1,
           {''http://site.test'', ''http://site.test/p1'', ''http://site.test:8080''},
           [''http://site.test/p1'', ''http://site.test:8080''], (3, 2)) \<and>
   fetched (site []) (init (site []) ''http://site.test/'' 1 2 30) 1 = [''http://site.test''] \<and>
   map_option (\<lambda>(reason, k, s, rows). (reason, k, visited s, queue s))
     (crawl (site []) 10 (init (site []) ''http://site.test/'' 1 1 30)) =
     Some (PageLimitReached, 0, {''http://site.test''}, [''http://site.test'']) \<and>
   fetched (site []) (init (site []) ''http://site.test/'' 1 1 30) 0 = []"
  by code_simp

subsection \<open>Priority links\<close>










text \<open>
  With the catalog of the program the priority test holds for every normalized URL, since
  the key \<open>/\<close> occurs in \<open>://\<close>: in a crawl the second branch of the test is never taken,
  whatever the comment "Prioritize form-related URLs" intends.
\<close>

lemma sublist_single: "c \<in> set xs \<Longrightarrow> sublist [c] xs"
  by (metis append_Cons append_Nil split_list sublist_appendI)

lemma catalog_priority_always: "is_priority (map fst form_configs) (normalize_url E u)"
proof -
  have l: "lower_char (CHR ''/'') = CHR ''/''" by code_simp
  have "CHR ''/'' \<in> set (normalize_url E u)" by (simp add: normalize_url_def Let_def)
  then have "lower_char (CHR ''/'') \<in> set (py_lower (normalize_url E u))"
    unfolding py_lower_def by simp
  then have "CHR ''/'' \<in> set (py_lower (normalize_url E u))" unfolding l .
  then have "sublist ''/'' (py_lower (normalize_url E u))" by (rule sublist_single)
  moreover have "''/'' \<in> set (map fst form_configs)" by (simp add: form_configs_def)
  ultimately show ?thesis unfolding is_priority_def list_ex_iff by blast
qed




subsection \<open>The order of the report\<close>

lemma run_forms_prefix:
  "prefix (forms_found (run E c n)) (forms_found (run E c (n + m)))"
proof (induction m)
  case 0
  show ?case by simp
next
  case (Suc m)
  have "prefix (forms_found (run E c (n + m))) (forms_found (run E c (Suc (n + m))))"
    by (simp add: crawl_step_forms_found append_new_prefix)
  then show ?case using Suc prefix_order.order_trans by fastforce
qed

lemma run_forms_distinct: "distinct (forms_found (run E (init E u bs mp tm) n))"
proof -
  have "\<And>s u. distinct (forms_found s) \<Longrightarrow> distinct (forms_found (fst (process_url E s u)))"
    by (simp add: process_url_forms_found append_new_distinct)
  from run_forms_inv[where Q = distinct, OF this] show ?thesis by simp
qed

text \<open>
  Claim C5, as the code has it. A pass of the loop appends to \<open>forms_found\<close> the forms of
  the pages of its batch that are not yet there, page after page in the order in which
  the requests of the batch \<^emph>\<open>complete\<close>. Along a crawl \<open>forms_found\<close> only grows at
  its end and never holds a record twice. The rows written are the header and one row
  for each record of the final \<open>forms_found\<close>, in its order (nothing is written when it is
  empty).
\<close>

theorem report_order:
  "forms_found (crawl_step E k s) =
     append_new (forms_found s)
       (concat (map (page_forms E) (pick_order (completion E k) (current_batch s)))) \<and>
   prefix (forms_found (run E (init E u bs mp tm) n))
          (forms_found (run E (init E u bs mp tm) (n + m))) \<and>
   distinct (forms_found (run E (init E u bs mp tm) n)) \<and>
   (crawl E fuel (init E u bs mp tm) = Some (reason, j, s', rows) \<longrightarrow>
      s' = run E (init E u bs mp tm) j \<and>
      rows = (if forms_found s' = [] then None
              else Some (csv_header # map form_row (forms_found s'))))"
  using crawl_step_forms_found run_forms_prefix run_forms_distinct
    crawl_run[of E fuel "init E u bs mp tm" reason j s' rows]
  by (auto simp: save_forms_to_csv_def)

text \<open>On the example site, in batches of two completing in dispatch order.\<close>

theorem report_order_witness:
  "map_option (\<lambda>(reason, j, s, rows). (reason, j)) 
     (crawl (site []) 10 (init (site []) ''http://site.test/'' 2 500 30)) = Some (Completed, 4) \<and>
   map fm_url (forms_found (run (site []) (init (site []) ''http://site.test/'' 2 500 30) 4)) =
     [''http://site.test'', ''http://site.test/p1'', ''http://site.test:8080'',
      ''http://site.test/contact-us/feedback''] \<and>
   map_option (\<lambda>(reason, j, s, rows). rows)
     (crawl (site []) 10 (init (site []) ''http://site.test/'' 2 500 30)) =
     Some (Some (csv_header # map form_row
       (forms_found (run (site []) (init (site []) ''http://site.test/'' 2 500 30) 4))))"
proof -
  let ?c = "init (site []) ''http://site.test/'' 2 500 30"
  have a: "map_option (\<lambda>(reason, j, s, rows). (reason, j)) (crawl (site []) 10 ?c) = Some (Completed, 4)"
    by code_simp
  then obtain s rows where cr: "crawl (site []) 10 ?c = Some (Completed, 4, s, rows)"
    by (cases "crawl (site []) 10 ?c") auto
  have b: "map fm_url (forms_found (run (site []) ?c 4)) =
     [''http://site.test'', ''http://site.test/p1'', ''http://site.test:8080'',
      ''http://site.test/contact-us/feedback'']"
    by code_simp
  then have ne: "forms_found (run (site []) ?c 4) \<noteq> []" by auto
  have "s = run (site []) ?c 4 \<and>
      rows = (if forms_found s = [] then None
              else Some (csv_header # map form_row (forms_found s)))"
    using report_order[of "site []" 0 s "''http://site.test/''" 2 500 30 0 0 10 Completed 4 s rows] cr
    by blast
  then have "map_option (\<lambda>(reason, j, s, rows). rows) (crawl (site []) 10 ?c) =
     Some (Some (csv_header # map form_row (forms_found (run (site []) ?c 4))))"
    using cr ne by simp
  then show ?thesis using a b by blast
qed

text \<open>
  Claim C5 as stated fails. Two crawls of the same pages in batches of two, which differ
  only in the order in which the two requests of a batch complete, write the rows of
  \<open>http://site.test/p1\<close> and \<open>http://site.test:8080\<close> in different orders (the column shown
  is the URL).
\<close>

theorem completion_order_counterexample:
  "session_get (site []) = session_get (site [1]) \<and>
   beautiful_soup (site []) = beautiful_soup (site [1]) \<and>
   init (site []) ''http://site.test/'' 2 500 30 = init (site [1]) ''http://site.test/'' 2 500 30 \<and>
   map_option (\<lambda>(reason, j, s, rows). (reason, j, map_option (map (\<lambda>row. row ! 1)) rows))
     (crawl (site []) 10 (init (site []) ''http://site.test/'' 2 500 30)) =
     Some (Completed, 4,
       Some [''URL'', ''http://site.test'', ''http://site.test/p1'', ''http://site.test:8080'',
             ''http://site.test/contact-us/feedback'']) \<and>
   map_option (\<lambda>(reason, j, s, rows). (reason, j, map_option (map (\<lambda>row. row ! 1)) rows))
     (crawl (site [1]) 10 (init (site [1]) ''http://site.test/'' 2 500 30)) =
     Some (Completed, 4,
       Some [''URL'', ''http://site.test'', ''http://site.test:8080'', ''http://site.test/p1'',
             ''http://site.test/contact-us/feedback''])"
proof -
  have a: "session_get (site []) = session_get (site [1])" by (simp add: site_def)
  have b: "beautiful_soup (site []) = beautiful_soup (site [1])" by (simp add: site_def)
  have c: "init (site []) ''http://site.test/'' 2 500 30 = init (site [1]) ''http://site.test/'' 2 500 30"
    by code_simp
  have d: "map_option (\<lambda>(reason, j, s, rows). (reason, j, map_option (map (\<lambda>row. row ! 1)) rows))
     (crawl (site []) 10 (init (site []) ''http://site.test/'' 2 500 30)) =
     Some (Completed, 4,
       Some [''URL'', ''http://site.test'', ''http://site.test/p1'', ''http://site.test:8080'',
             ''http://site.test/contact-us/feedback''])"
    by code_simp
  have e: "map_option (\<lambda>(reason, j, s, rows). (reason, j, map_option (map (\<lambda>row. row ! 1)) rows))
     (crawl (site [1]) 10 (init (site [1]) ''http://site.test/'' 2 500 30)) =
     Some (Completed, 4,
       Some [''URL'', ''http://site.test'', ''http://site.test:8080'', ''http://site.test/p1'',
             ''http://site.test/contact-us/feedback''])"
    by code_simp
  show ?thesis using a b c d e by blast
qed

end
